theory Spec2Isabelle
  imports Main "HOL-Library.Signed_Division"
begin

section \<open>The gdigrab device demuxer (libavdevice/gdigrab.c)\<close>

text \<open>
  The theory embeds the threaded GDI frame grabber: the demuxer context
  \<^verbatim>\<open>struct gdigrab\<close>, the initialisation \<^verbatim>\<open>gdigrab_dc_init\<close>, the worker thread
  \<^verbatim>\<open>gdigrab_worker\<close>, and the calls \<^verbatim>\<open>gdigrab_worker_start\<close>, \<^verbatim>\<open>gdigrab_read_packet\<close>
  and \<^verbatim>\<open>gdigrab_read_close\<close> of the thread that drives the demuxer.

  Conventions.
  \<^item> C's \<^verbatim>\<open>int\<close> and \<^verbatim>\<open>LONG\<close> are 32 bits wide. Their values are modelled by \<open>int\<close>, and
    the result of every addition, subtraction, negation and multiplication on them
    is reduced to 32 bits by \<open>int32\<close>, as the two's complement machine computes it
    (C itself leaves signed overflow undefined). \<^verbatim>\<open>WORD\<close> and \<^verbatim>\<open>DWORD\<close> fields hold their
    value modulo \<open>2 ^ 16\<close> and \<open>2 ^ 32\<close>. Division and remainder truncate (\<open>sdiv\<close>,
    \<open>smod\<close>); a division by zero, or of \<^verbatim>\<open>INT_MIN\<close> by \<open>-1\<close>, traps.
  \<^item> The microsecond clock and the time arithmetic on it are \<^verbatim>\<open>int64_t\<close>, modelled by
    \<open>int\<close>: the model describes the executions in which no 64-bit operation
    overflows.
  \<^item> A Win32 handle is modelled by whether it is non-NULL. The pointer
    \<^verbatim>\<open>buffer[i]\<close> of an allocated DIB section is modelled by \<open>Some i\<close>, NULL by \<open>None\<close>.
  \<^item> Every answer of the operating system (Win32 calls, the clock, the packet
    allocator, thread creation) is read from an environment record.
  \<^item> The code between two synchronisation points of a thread is one atomic step.
    A thread inside \<^verbatim>\<open>pthread_cond_wait\<close> does not move until a broadcast on
    \<^verbatim>\<open>grab_cond\<close> wakes it. The pthread calls themselves never fail, and the
    destruction of the mutex by the exiting worker is not modelled.
\<close>

subsection \<open>Constants of the platform headers\<close>

text \<open>The errno values and the macro \<^verbatim>\<open>AVERROR\<close> (libavutil/error.h) of the build.\<close>

definition EIO :: int where "EIO = 5"
definition EAGAIN :: int where "EAGAIN = 11"
definition ENOMEM :: int where "ENOMEM = 12"

definition AVERROR :: "int \<Rightarrow> int" where
  "AVERROR e = - e"

text \<open>The sizes of the bitmap structures of wingdi.h.\<close>

definition sizeof_BITMAPFILEHEADER :: int where "sizeof_BITMAPFILEHEADER = 14"
definition sizeof_BITMAPINFOHEADER :: int where "sizeof_BITMAPINFOHEADER = 40"
definition sizeof_RGBQUAD :: int where "sizeof_RGBQUAD = 4"

subsection \<open>Machine integers\<close>

text \<open>The value a 32-bit signed variable holds after an operation whose exact result
  is \<open>x\<close>: the residue of \<open>x\<close> modulo \<open>2 ^ 32\<close> between \<open>- 2 ^ 31\<close> and \<open>2 ^ 31 - 1\<close>.\<close>

definition int32 :: "int \<Rightarrow> int" where
  "int32 x = (x + 2147483648) mod 4294967296 - 2147483648"

text \<open>The exact result fits: \<^verbatim>\<open>INT_MIN\<close> \<open>\<le> x \<le>\<close> \<^verbatim>\<open>INT_MAX\<close>.\<close>

definition in_int32 :: "int \<Rightarrow> bool" where
  "in_int32 x = (- 2147483648 \<le> x \<and> x \<le> 2147483647)"

text \<open>The conversions to \<^verbatim>\<open>WORD\<close> (16 bits, unsigned) and \<^verbatim>\<open>DWORD\<close> (32 bits, unsigned).\<close>

definition uint16 :: "int \<Rightarrow> int" where
  "uint16 x = x mod 65536"

definition uint32 :: "int \<Rightarrow> int" where
  "uint32 x = x mod 4294967296"

text \<open>The 32-bit division instruction traps on a zero divisor and on the one quotient
  that does not fit.\<close>

definition div_traps :: "int \<Rightarrow> int \<Rightarrow> bool" where
  "div_traps a b = (b = 0 \<or> (a = - 2147483648 \<and> b = - 1))"

subsection \<open>Data\<close>

record RECT =
  rleft :: int
  rtop :: int
  rright :: int
  rbottom :: int

record BITMAP =
  bmWidthBytes :: int
  bmHeight :: int
  bmPlanes :: int

record BITMAPINFOHEADER =
  biWidth :: int
  biHeight :: int
  biPlanes :: int
  biBitCount :: int

text \<open>\<^verbatim>\<open>struct gdigrab\<close>. The arrays \<^verbatim>\<open>hbmp[2]\<close> and \<^verbatim>\<open>buffer[2]\<close> are lists of length two.\<close>

record gdigrab =
  frame_size :: int
  header_size :: int
  time_base :: int
  time_frame :: int
  draw_mouse :: int
  show_region :: int
  width :: int
  height :: int
  offset_x :: int
  offset_y :: int
  hwnd :: bool
  source_hdc :: bool
  dest_hdc :: bool
  bmi :: BITMAPINFOHEADER
  hbmp :: "bool list"
  buffer :: "nat option list"
  clip_rect :: RECT
  region_hwnd :: bool
  cursor_error_printed :: int
  grab_worker_quit :: bool
  frame_in_stock :: "nat option"
  error_code :: int

text \<open>The packet filled by \<^verbatim>\<open>gdigrab_copy_frame\<close>: its timestamp, its size, the two
  fields of the file header that depend on the frame, the number of colour-table
  entries fetched, and the buffer the pixels were copied from.\<close>

record packet =
  pts :: int
  pkt_size :: int
  bfSize :: int
  bfOffBits :: int
  palette_entries :: int
  pkt_data :: "nat option"

text \<open>The answers of the Win32 calls made by \<^verbatim>\<open>gdigrab_dc_init\<close>. \<open>period\<close> is the value
  of the floating-point expression \<^verbatim>\<open>(int64_t)(1000000.0 / av_q2d(gdigrab->framerate))\<close>.\<close>

record dc_env =
  url :: string
  FindWindow :: "string \<Rightarrow> bool"
  GetDC_ok :: bool
  BITSPIXEL :: int
  HORZRES :: int
  VERTRES :: int
  DESKTOPHORZRES :: int
  DESKTOPVERTRES :: int
  GetClientRect :: RECT
  SM_XVIRTUALSCREEN :: int
  SM_YVIRTUALSCREEN :: int
  SM_CXVIRTUALSCREEN :: int
  SM_CYVIRTUALSCREEN :: int
  CreateCompatibleDC_ok :: bool
  CreateDIBSection_ok :: "nat \<Rightarrow> bool"
  GetObject :: BITMAP
  period :: int
  region_wnd_init_ok :: bool

text \<open>The place at which \<^verbatim>\<open>gdigrab_dc_init\<close> leaves its body. Every place but the last
  logs its own message and sets \<^verbatim>\<open>ret = AVERROR(EIO)\<close>.\<close>

datatype dc_exit =
    No_window | Bad_target | No_device_context
  | Outside_area | Invalid_properties
  | No_compatible_dc | No_dib_section | No_region_window
  | Init_ok

datatype api_call = Call_CreateCompatibleDC | Call_CreateDIBSection nat

text \<open>A division that traps ends the process.\<close>

datatype 'a outcome = Trap | Ret 'a

subsection \<open>gdigrab\_dc\_destroy\<close>

definition gdigrab_dc_destroy :: "gdigrab \<Rightarrow> gdigrab" where
  "gdigrab_dc_destroy g =
     g\<lparr> region_hwnd := (if show_region g \<noteq> 0 then False else region_hwnd g),
        buffer := map (\<lambda>(h, b). if h then None else b) (zip (hbmp g) (buffer g)),
        hbmp := map (\<lambda>h. False) (hbmp g),
        hwnd := False,
        source_hdc := False,
        dest_hdc := False,
        frame_in_stock := None \<rparr>"

subsection \<open>gdigrab\_dc\_init\<close>

text \<open>The target: \<^verbatim>\<open>title=<name>\<close> selects a window, \<^verbatim>\<open>desktop\<close> the screen.\<close>

definition is_title :: "string \<Rightarrow> bool" where
  "is_title filename = (take 6 filename = ''title='')"

text \<open>The dividends of the desktop branch: \<^verbatim>\<open>(virtual_rect.left + GetSystemMetrics(SM_CXVIRTUALSCREEN)) * desktophorzres\<close>
  and its vertical counterpart.\<close>

definition scaled_right :: "dc_env \<Rightarrow> int" where
  "scaled_right e = int32 (int32 (SM_XVIRTUALSCREEN e + SM_CXVIRTUALSCREEN e) * DESKTOPHORZRES e)"

definition scaled_bottom :: "dc_env \<Rightarrow> int" where
  "scaled_bottom e = int32 (int32 (SM_YVIRTUALSCREEN e + SM_CYVIRTUALSCREEN e) * DESKTOPVERTRES e)"

definition virtual_rect_of :: "dc_env \<Rightarrow> bool \<Rightarrow> RECT" where
  "virtual_rect_of e has_hwnd =
     (if has_hwnd then GetClientRect e
      else \<lparr> rleft = SM_XVIRTUALSCREEN e,
             rtop = SM_YVIRTUALSCREEN e,
             rright = scaled_right e sdiv HORZRES e,
             rbottom = scaled_bottom e sdiv VERTRES e \<rparr>)"

text \<open>"If no width or height set, use full screen/window area". Otherwise the right
  and bottom edges are the 32-bit sums \<^verbatim>\<open>gdigrab->width + gdigrab->offset_x\<close> and
  \<^verbatim>\<open>gdigrab->height + gdigrab->offset_y\<close>.\<close>

definition requested_clip_rect :: "gdigrab \<Rightarrow> RECT \<Rightarrow> RECT" where
  "requested_clip_rect g virtual_rect =
     (if width g = 0 \<or> height g = 0 then
        \<lparr> rleft = rleft virtual_rect, rtop = rtop virtual_rect,
          rright = rright virtual_rect, rbottom = rbottom virtual_rect \<rparr>
      else
        \<lparr> rleft = offset_x g, rtop = offset_y g,
          rright = int32 (width g + offset_x g), rbottom = int32 (height g + offset_y g) \<rparr>)"

definition extends_outside :: "RECT \<Rightarrow> RECT \<Rightarrow> bool" where
  "extends_outside clip virtual_rect =
     (rleft clip < rleft virtual_rect \<or> rtop clip < rtop virtual_rect \<or>
      rright clip > rright virtual_rect \<or> rbottom clip > rbottom virtual_rect)"

text \<open>The width and the height of a rectangle as the code computes them:
  \<^verbatim>\<open>clip_rect.right - clip_rect.left\<close> and \<^verbatim>\<open>clip_rect.bottom - clip_rect.top\<close> in 32 bits.\<close>

definition rect_width :: "RECT \<Rightarrow> int" where
  "rect_width r = int32 (rright r - rleft r)"

definition rect_height :: "RECT \<Rightarrow> int" where
  "rect_height r = int32 (rbottom r - rtop r)"

definition invalid_properties :: "RECT \<Rightarrow> int \<Rightarrow> bool" where
  "invalid_properties clip bpp =
     (rect_width clip \<le> 0 \<or> rect_height clip \<le> 0 \<or> bpp smod 8 \<noteq> 0)"

text \<open>For comparison, the rectangle the options ask for in exact arithmetic: the area
  of \<open>width\<close> by \<open>height\<close> pixels at \<open>(offset_x, offset_y)\<close>, or the whole target. It is
  not computed by the code; \<open>requested_clip_rect\<close> is.\<close>

definition exact_clip_rect :: "gdigrab \<Rightarrow> RECT \<Rightarrow> RECT" where
  "exact_clip_rect g virtual_rect =
     (if width g = 0 \<or> height g = 0 then
        \<lparr> rleft = rleft virtual_rect, rtop = rtop virtual_rect,
          rright = rright virtual_rect, rbottom = rbottom virtual_rect \<rparr>
      else
        \<lparr> rleft = offset_x g, rtop = offset_y g,
          rright = width g + offset_x g, rbottom = height g + offset_y g \<rparr>)"

text \<open>The part of the body after the geometry checks: the destination context, the
  two DIB sections, the frame format, the region window. \<^verbatim>\<open>frame_size\<close> is an \<^verbatim>\<open>int\<close>,
  the product of two \<^verbatim>\<open>LONG\<close>s and a \<^verbatim>\<open>WORD\<close>; \<^verbatim>\<open>biBitCount\<close> is a \<^verbatim>\<open>WORD\<close>. The palette
  size \<^verbatim>\<open>1 << bpp\<close> is taken only for \<open>bpp \<le> 8\<close>; for a negative \<open>bpp\<close>, which
  \<^verbatim>\<open>GetDeviceCaps\<close> does not return, the shift is undefined in C and the model takes
  \<open>2 ^ 0\<close>.\<close>

definition dc_allocate :: "dc_env \<Rightarrow> RECT \<Rightarrow> int \<Rightarrow> gdigrab \<Rightarrow> dc_exit \<times> api_call list \<times> gdigrab" where
  "dc_allocate e clip bpp g =
     (if \<not> CreateCompatibleDC_ok e then (No_compatible_dc, [Call_CreateCompatibleDC], g)
      else
        let g1 = g\<lparr> dest_hdc := True \<rparr>;
            hdr = \<lparr> biWidth = rect_width clip,
                    biHeight = int32 (- rect_height clip),
                    biPlanes = 1, biBitCount = uint16 bpp \<rparr>
        in
        if \<not> CreateDIBSection_ok e 0 then
          (No_dib_section, [Call_CreateCompatibleDC, Call_CreateDIBSection 0],
           g1\<lparr> hbmp := (hbmp g1)[0 := False], buffer := (buffer g1)[0 := None] \<rparr>)
        else
          let g2 = g1\<lparr> hbmp := (hbmp g1)[0 := True], buffer := (buffer g1)[0 := Some 0] \<rparr> in
          if \<not> CreateDIBSection_ok e 1 then
            (No_dib_section,
             [Call_CreateCompatibleDC, Call_CreateDIBSection 0, Call_CreateDIBSection 1],
             g2\<lparr> hbmp := (hbmp g2)[1 := False], buffer := (buffer g2)[1 := None] \<rparr>)
          else
            let g3 = g2\<lparr> hbmp := (hbmp g2)[1 := True], buffer := (buffer g2)[1 := Some 1] \<rparr>;
                b = GetObject e;
                g4 = g3\<lparr> frame_size := int32 (int32 (bmWidthBytes b * bmHeight b) * bmPlanes b),
                         header_size := sizeof_BITMAPFILEHEADER + sizeof_BITMAPINFOHEADER +
                                        (if bpp \<le> 8 then 2 ^ nat bpp else 0) * sizeof_RGBQUAD,
                         time_base := period e,
                         bmi := hdr,
                         clip_rect := clip,
                         cursor_error_printed := 0 \<rparr>;
                calls = [Call_CreateCompatibleDC, Call_CreateDIBSection 0, Call_CreateDIBSection 1]
            in
            if show_region g4 \<noteq> 0 then
              (if \<not> region_wnd_init_ok e then (No_region_window, calls, g4)
               else (Init_ok, calls, g4\<lparr> region_hwnd := True \<rparr>))
            else (Init_ok, calls, g4))"

text \<open>The body of \<^verbatim>\<open>gdigrab_dc_init\<close> between the first \<^verbatim>\<open>gdigrab_dc_destroy\<close> and the
  label \<^verbatim>\<open>end\<close>. The desktop branch divides by \<^verbatim>\<open>HORZRES\<close> and by \<^verbatim>\<open>VERTRES\<close>.\<close>

definition dc_body :: "dc_env \<Rightarrow> gdigrab \<Rightarrow> (dc_exit \<times> api_call list \<times> gdigrab) outcome" where
  "dc_body e g =
     (if is_title (url e) \<and> \<not> FindWindow e (drop 6 (url e)) then Ret (No_window, [], g)
      else if \<not> is_title (url e) \<and> url e \<noteq> ''desktop'' then Ret (Bad_target, [], g)
      else
        let has_hwnd = is_title (url e);
            g1 = g\<lparr> hwnd := has_hwnd,
                    show_region := (if has_hwnd \<and> show_region g \<noteq> 0 then 0 else show_region g) \<rparr>
        in
        if \<not> GetDC_ok e then Ret (No_device_context, [], g1)
        else
          let g2 = g1\<lparr> source_hdc := True \<rparr>;
              bpp = BITSPIXEL e
          in
          if \<not> has_hwnd \<and> (div_traps (scaled_right e) (HORZRES e) \<or>
                             div_traps (scaled_bottom e) (VERTRES e)) then Trap
          else
            let virtual_rect = virtual_rect_of e has_hwnd;
                clip = requested_clip_rect g2 virtual_rect
            in
            if extends_outside clip virtual_rect then Ret (Outside_area, [], g2)
            else if invalid_properties clip bpp then Ret (Invalid_properties, [], g2)
            else Ret (dc_allocate e clip bpp g2))"

text \<open>The whole function, but for the broadcast on \<^verbatim>\<open>grab_cond\<close>, which the worker's
  step adds. The result is \<^verbatim>\<open>ret\<close>, the exit taken, the allocation calls made, and the
  context.\<close>

definition gdigrab_dc_init :: "dc_env \<Rightarrow> gdigrab \<Rightarrow> (int \<times> dc_exit \<times> api_call list \<times> gdigrab) outcome" where
  "gdigrab_dc_init e g =
     (case dc_body e (gdigrab_dc_destroy g) of
        Trap \<Rightarrow> Trap
      | Ret (x, calls, g1) \<Rightarrow>
          let ret = (if x = Init_ok then 0 else AVERROR EIO);
              g2 = (if ret \<noteq> 0 then gdigrab_dc_destroy g1 else g1)
          in Ret (ret, x, calls, g2\<lparr> error_code := ret \<rparr>))"

subsection \<open>gdigrab\_copy\_frame\<close>

text \<open>\<open>alloc_ok\<close> is whether \<^verbatim>\<open>av_new_packet\<close> succeeds. \<^verbatim>\<open>file_size\<close> and the value
  returned are \<^verbatim>\<open>int\<close> sums; \<^verbatim>\<open>bfSize\<close> and \<^verbatim>\<open>bfOffBits\<close> are \<^verbatim>\<open>DWORD\<close>s.\<close>

definition gdigrab_copy_frame :: "bool \<Rightarrow> gdigrab \<Rightarrow> int \<times> packet option \<times> gdigrab" where
  "gdigrab_copy_frame alloc_ok g =
     (let file_size = int32 (header_size g + frame_size g) in
      if \<not> alloc_ok then (AVERROR ENOMEM, None, g)
      else
        (int32 (header_size g + frame_size g),
         Some \<lparr> pts = time_frame g,
                pkt_size = file_size,
                bfSize = uint32 file_size,
                bfOffBits = uint32 (header_size g),
                palette_entries = (if biBitCount (bmi g) \<le> 8 then 2 ^ nat (biBitCount (bmi g)) else 0),
                pkt_data = frame_in_stock g \<rparr>,
         g\<lparr> frame_in_stock := None \<rparr>))"

subsection \<open>The pacing computation of the worker loop\<close>

text \<open>Lines "sleep based on the frame rate" of \<^verbatim>\<open>gdigrab_worker\<close>. \<open>time_sleep_start\<close>
  and \<open>time_end\<close> are the two readings of \<^verbatim>\<open>av_gettime\<close>, before and after the possible
  \<^verbatim>\<open>av_usleep\<close>. The result is the argument of \<^verbatim>\<open>av_usleep\<close> (\<open>None\<close> when it is not
  called) and the new \<^verbatim>\<open>sleep_balance\<close>.\<close>

definition pacing :: "int \<Rightarrow> int \<Rightarrow> int \<Rightarrow> int \<Rightarrow> int \<Rightarrow> int option \<times> int" where
  "pacing tbase time_start time_sleep_start time_end sleep_balance =
     (let time_sleep = tbase - (time_sleep_start - time_start);
          time_request_sleep = time_sleep + sleep_balance;
          slept = (if time_request_sleep > 0 then Some time_request_sleep else None);
          time_actual_sleep = time_end - time_sleep_start;
          balance1 = sleep_balance + (time_sleep - time_actual_sleep);
          balance2 = (if balance1 < - tbase then - tbase else balance1)
      in (slept, balance2))"

subsection \<open>Threads and the environment\<close>

text \<open>The local variables of \<^verbatim>\<open>gdigrab_worker\<close> (prefix \<open>w_\<close>). The loop counter \<^verbatim>\<open>sn\<close>
  is a natural number.\<close>

record worker =
  w_i :: nat
  w_sn :: nat
  w_time_base :: int
  w_time_start :: int
  w_time_end :: int
  w_sleep_balance :: int
  w_error :: int
  w_frame_in_stock :: "nat option"

text \<open>Where the worker thread stands: not created; before \<^verbatim>\<open>gdigrab_dc_init\<close>; at the
  loop test (before the blit); before \<^verbatim>\<open>pthread_mutex_lock\<close> with a grab finished;
  inside \<^verbatim>\<open>pthread_cond_wait\<close> of the loop "Wait for a frame being comsumed", asleep
  or woken; before the pacing code; at the label \<^verbatim>\<open>end\<close>; returned; trapped.\<close>

datatype worker_pc = WNone | WInit | WGrab | WPost | WWait | WWoken | WSleep | WExit | WDone | WTrap

text \<open>Where the calling thread stands: in no call; in \<^verbatim>\<open>gdigrab_worker_start\<close> after
  \<^verbatim>\<open>pthread_create\<close>; in its \<^verbatim>\<open>pthread_cond_wait\<close>, asleep or woken; in the
  \<^verbatim>\<open>pthread_cond_wait\<close> of \<^verbatim>\<open>gdigrab_read_packet\<close>, asleep or woken.\<close>

datatype caller_pc = MIdle | MStartLock | MStartWait | MStartWoken | MReadWait | MReadWoken

text \<open>The environment: the answers to \<^verbatim>\<open>gdigrab_dc_init\<close>; whether \<^verbatim>\<open>pthread_create\<close>
  succeeds; whether \<^verbatim>\<open>SelectObject\<close> and \<^verbatim>\<open>BitBlt\<close> both succeed in iteration \<open>sn\<close>;
  whether \<^verbatim>\<open>paint_mouse_pointer\<close> meets an error in iteration \<open>sn\<close>; the value of the
  \<open>k\<close>-th call of \<^verbatim>\<open>av_gettime\<close>; whether the \<open>k\<close>-th call of \<^verbatim>\<open>av_new_packet\<close>
  succeeds.\<close>

record env =
  dc :: dc_env
  thread_ok :: bool
  capture_ok :: "nat \<Rightarrow> bool"
  cursor_fails :: "nat \<Rightarrow> bool"
  clock :: "nat \<Rightarrow> int"
  packet_ok :: "nat \<Rightarrow> bool"

text \<open>The state of the system. Besides the context, the worker's locals and the two
  program points it counts the calls of \<^verbatim>\<open>av_gettime\<close> and \<^verbatim>\<open>av_new_packet\<close> and keeps
  a history: the values returned by \<^verbatim>\<open>gdigrab_worker_start\<close>, by
  \<^verbatim>\<open>gdigrab_read_packet\<close> (with the packet, if one was filled) and by
  \<^verbatim>\<open>gdigrab_read_close\<close>; the frames stored into \<^verbatim>\<open>frame_in_stock\<close> by the worker
  (iteration, buffer, \<^verbatim>\<open>time_start\<close>); the blits issued (iteration, \<^verbatim>\<open>time_start\<close>); the
  arguments of \<^verbatim>\<open>av_usleep\<close>.\<close>

record sys =
  g :: gdigrab
  w :: worker
  wpc :: worker_pc
  mpc :: caller_pc
  ticks :: nat
  allocs :: nat
  start_rets :: "int list"
  outputs :: "(int \<times> packet option) list"
  close_rets :: "int list"
  posted :: "(nat \<times> nat \<times> int) list"
  grabs :: "(nat \<times> int) list"
  usleeps :: "int list"

text \<open>\<^verbatim>\<open>pthread_cond_broadcast(&gdigrab->grab_cond)\<close> wakes every waiting thread.\<close>

definition broadcast :: "sys \<Rightarrow> sys" where
  "broadcast s =
     s\<lparr> wpc := (if wpc s = WWait then WWoken else wpc s),
        mpc := (case mpc s of MStartWait \<Rightarrow> MStartWoken | MReadWait \<Rightarrow> MReadWoken | p \<Rightarrow> p) \<rparr>"

subsection \<open>gdigrab\_worker\<close>

text \<open>From the entry to the loop: \<^verbatim>\<open>gdigrab_dc_init\<close> (one critical section), the
  locals, the first \<^verbatim>\<open>av_gettime\<close>. \<^verbatim>\<open>time_start\<close> is not initialised.\<close>

definition worker_init :: "env \<Rightarrow> sys \<Rightarrow> sys" where
  "worker_init e s =
     (case gdigrab_dc_init (dc e) (g s) of
        Trap \<Rightarrow> s\<lparr> wpc := WTrap \<rparr>
      | Ret (ret, x, calls, g1) \<Rightarrow>
          if ret \<noteq> 0 then (broadcast (s\<lparr> g := g1 \<rparr>))\<lparr> wpc := WExit \<rparr>
          else
            (broadcast (s\<lparr> g := g1 \<rparr>))
              \<lparr> w := (w s)\<lparr> w_i := 0, w_sn := 0, w_time_base := time_base g1,
                             w_time_end := clock e (ticks s), w_sleep_balance := 0,
                             w_error := 0, w_frame_in_stock := None \<rparr>,
                wpc := WGrab,
                ticks := ticks s + 1 \<rparr>)"

text \<open>The loop test and the blit, up to \<^verbatim>\<open>time_grab_end = av_gettime()\<close>.\<close>

definition worker_grab :: "env \<Rightarrow> sys \<Rightarrow> sys" where
  "worker_grab e s =
     (if grab_worker_quit (g s) then s\<lparr> wpc := WExit \<rparr>
      else
        let l = (w s)\<lparr> w_time_start := w_time_end (w s) \<rparr>;
            ok = capture_ok e (w_sn l);
            l1 = (if ok then l\<lparr> w_error := 0, w_frame_in_stock := buffer (g s) ! w_i l \<rparr>
                  else l\<lparr> w_error := AVERROR EIO, w_frame_in_stock := None \<rparr>);
            g1 = (if ok \<and> draw_mouse (g s) \<noteq> 0 \<and> cursor_fails e (w_sn l) \<and>
                     cursor_error_printed (g s) = 0
                  then (g s)\<lparr> cursor_error_printed := 1 \<rparr> else g s)
        in s\<lparr> g := g1, w := l1, wpc := WPost, ticks := ticks s + 1,
              grabs := grabs s @ [(w_sn l, w_time_start l)] \<rparr>)"

text \<open>From the label \<^verbatim>\<open>end\<close> to the return. A \<^verbatim>\<open>break\<close> out of the loop is taken with
  the mutex held, so the exit belongs to the critical section of the \<^verbatim>\<open>break\<close>. When
  the loop test ends the loop, or \<^verbatim>\<open>gdigrab_dc_init\<close> fails, the exit is a step of its
  own (program point \<open>WExit\<close>).\<close>

definition worker_exit :: "sys \<Rightarrow> sys" where
  "worker_exit s = (broadcast (s\<lparr> g := gdigrab_dc_destroy (g s) \<rparr>))\<lparr> wpc := WDone \<rparr>"

text \<open>The loop "Wait for a frame being comsumed" and what follows it in the critical
  section: entered after the lock and again after each wake-up.\<close>

definition worker_wait_loop :: "sys \<Rightarrow> sys" where
  "worker_wait_loop s =
     (if frame_in_stock (g s) \<noteq> None then s\<lparr> wpc := WWait \<rparr>
      else if grab_worker_quit (g s) then worker_exit s
      else
        (broadcast
           (s\<lparr> g := (g s)\<lparr> time_frame := w_time_start (w s),
                            frame_in_stock := w_frame_in_stock (w s) \<rparr>,
               posted := posted s @
                 (case w_frame_in_stock (w s) of
                    None \<Rightarrow> []
                  | Some b \<Rightarrow> [(w_sn (w s), b, w_time_start (w s))]) \<rparr>))
          \<lparr> wpc := WSleep \<rparr>)"

text \<open>The critical section from \<^verbatim>\<open>pthread_mutex_lock\<close>.\<close>

definition worker_post :: "sys \<Rightarrow> sys" where
  "worker_post s =
     (if w_error (w s) \<noteq> 0 \<and> w_sn (w s) = 0 then
        worker_exit (s\<lparr> g := (g s)\<lparr> error_code := w_error (w s) \<rparr> \<rparr>)
      else if grab_worker_quit (g s) then worker_exit s
      else worker_wait_loop s)"

text \<open>The pacing code and the loop increment.\<close>

definition worker_sleep :: "env \<Rightarrow> sys \<Rightarrow> sys" where
  "worker_sleep e s =
     (let time_sleep_start = clock e (ticks s);
          time_end = clock e (ticks s + 1);
          (slept, balance) = pacing (w_time_base (w s)) (w_time_start (w s))
                               time_sleep_start time_end (w_sleep_balance (w s))
      in s\<lparr> w := (w s)\<lparr> w_time_end := time_end, w_sleep_balance := balance,
                        w_i := (w_i (w s) + 1) mod 2, w_sn := w_sn (w s) + 1 \<rparr>,
            wpc := WGrab,
            ticks := ticks s + 2,
            usleeps := usleeps s @ (case slept of None \<Rightarrow> [] | Some d \<Rightarrow> [d]) \<rparr>)"

definition worker_step :: "env \<Rightarrow> sys \<Rightarrow> sys" where
  "worker_step e s =
     (case wpc s of
        WInit \<Rightarrow> worker_init e s
      | WGrab \<Rightarrow> worker_grab e s
      | WPost \<Rightarrow> worker_post s
      | WWoken \<Rightarrow> worker_wait_loop s
      | WSleep \<Rightarrow> worker_sleep e s
      | WExit \<Rightarrow> worker_exit s
      | _ \<Rightarrow> s)"

subsection \<open>gdigrab\_worker\_start, gdigrab\_read\_packet, gdigrab\_read\_close\<close>

text \<open>\<^verbatim>\<open>gdigrab_worker_start\<close> up to \<^verbatim>\<open>pthread_create\<close>. It is called once, before the
  worker exists.\<close>

definition start_call :: "env \<Rightarrow> sys \<Rightarrow> sys" where
  "start_call e s =
     (if mpc s \<noteq> MIdle \<or> wpc s \<noteq> WNone then s
      else
        let s1 = s\<lparr> g := (g s)\<lparr> error_code := 0 \<rparr> \<rparr> in
        if \<not> thread_ok e then s1\<lparr> start_rets := start_rets s @ [AVERROR EIO] \<rparr>
        else s1\<lparr> wpc := WInit, mpc := MStartLock \<rparr>)"

text \<open>\<^verbatim>\<open>gdigrab_worker_start\<close> from \<^verbatim>\<open>pthread_mutex_lock\<close>: it waits once unless an error
  code is already there.\<close>

definition start_lock :: "sys \<Rightarrow> sys" where
  "start_lock s =
     (if error_code (g s) = 0 then s\<lparr> mpc := MStartWait \<rparr>
      else s\<lparr> mpc := MIdle, start_rets := start_rets s @ [error_code (g s)] \<rparr>)"

definition start_return :: "sys \<Rightarrow> sys" where
  "start_return s = s\<lparr> mpc := MIdle, start_rets := start_rets s @ [error_code (g s)] \<rparr>"

text \<open>The return of \<^verbatim>\<open>gdigrab_read_packet\<close> with value \<open>ret\<close>, after the broadcast.\<close>

definition read_return :: "int \<times> packet option \<times> gdigrab \<Rightarrow> sys \<Rightarrow> sys" where
  "read_return r s =
     (case r of (ret, pkt, g1) \<Rightarrow>
        (broadcast (s\<lparr> g := g1 \<rparr>))\<lparr> mpc := MIdle, outputs := outputs s @ [(ret, pkt)] \<rparr>)"

definition copy_frame_call :: "env \<Rightarrow> sys \<Rightarrow> sys" where
  "copy_frame_call e s =
     read_return (gdigrab_copy_frame (packet_ok e (allocs s)) (g s)) (s\<lparr> allocs := allocs s + 1 \<rparr>)"

text \<open>\<^verbatim>\<open>gdigrab_read_packet\<close> from its entry; \<open>nonblock\<close> is the flag
  \<^verbatim>\<open>AVFMT_FLAG_NONBLOCK\<close>. The source line of the non-blocking branch carries a stray
  minus sign in front of \<^verbatim>\<open>ret = AVERROR(EAGAIN);\<close>; it is read as that assignment.\<close>

definition read_call :: "env \<Rightarrow> bool \<Rightarrow> sys \<Rightarrow> sys" where
  "read_call e nonblock s =
     (if mpc s \<noteq> MIdle then s
      else if error_code (g s) \<noteq> 0 then read_return (AVERROR EIO, None, g s) s
      else if frame_in_stock (g s) \<noteq> None then copy_frame_call e s
      else if nonblock then read_return (AVERROR EAGAIN, None, g s) s
      else s\<lparr> mpc := MReadWait \<rparr>)"

text \<open>\<^verbatim>\<open>gdigrab_read_packet\<close> after its \<^verbatim>\<open>pthread_cond_wait\<close>.\<close>

definition read_woken :: "env \<Rightarrow> sys \<Rightarrow> sys" where
  "read_woken e s =
     (if frame_in_stock (g s) \<noteq> None then copy_frame_call e s
      else read_return (AVERROR EIO, None, g s) s)"

definition caller_resume :: "env \<Rightarrow> sys \<Rightarrow> sys" where
  "caller_resume e s =
     (case mpc s of
        MStartLock \<Rightarrow> start_lock s
      | MStartWoken \<Rightarrow> start_return s
      | MReadWoken \<Rightarrow> read_woken e s
      | _ \<Rightarrow> s)"

text \<open>\<^verbatim>\<open>gdigrab_read_close\<close>: one critical section.\<close>

definition gdigrab_read_close :: "sys \<Rightarrow> sys" where
  "gdigrab_read_close s =
     (broadcast (s\<lparr> g := (g s)\<lparr> grab_worker_quit := True \<rparr> \<rparr>))
       \<lparr> close_rets := close_rets s @ [0] \<rparr>"

subsection \<open>Interleavings\<close>

text \<open>An event is one atomic step: the calling thread enters
  \<^verbatim>\<open>gdigrab_worker_start\<close> or \<^verbatim>\<open>gdigrab_read_packet\<close>, or continues the call it is in;
  the worker runs to its next synchronisation point; \<^verbatim>\<open>gdigrab_read_close\<close> runs.
  An event whose thread cannot move leaves the state as it is, and so does every
  event after a trap.\<close>

datatype event = Start | Work | Read bool | Resume | Close

definition step :: "env \<Rightarrow> event \<Rightarrow> sys \<Rightarrow> sys" where
  "step e ev s =
     (if wpc s = WTrap then s
      else case ev of
        Start \<Rightarrow> start_call e s
      | Work \<Rightarrow> worker_step e s
      | Read nonblock \<Rightarrow> read_call e nonblock s
      | Resume \<Rightarrow> caller_resume e s
      | Close \<Rightarrow> gdigrab_read_close s)"

fun run :: "env \<Rightarrow> event list \<Rightarrow> sys \<Rightarrow> sys" where
  "run e [] s = s"
| "run e (ev # evs) s = run e evs (step e ev s)"

text \<open>The context as \<^verbatim>\<open>avformat\<close> hands it over: zeroed, with the private options set.\<close>

record options =
  opt_draw_mouse :: int
  opt_show_region :: int
  opt_width :: int
  opt_height :: int
  opt_offset_x :: int
  opt_offset_y :: int

definition gdigrab0 :: "options \<Rightarrow> gdigrab" where
  "gdigrab0 opts =
     \<lparr> frame_size = 0, header_size = 0, time_base = 0, time_frame = 0,
       draw_mouse = opt_draw_mouse opts, show_region = opt_show_region opts,
       width = opt_width opts, height = opt_height opts,
       offset_x = opt_offset_x opts, offset_y = opt_offset_y opts,
       hwnd = False, source_hdc = False, dest_hdc = False,
       bmi = \<lparr> biWidth = 0, biHeight = 0, biPlanes = 0, biBitCount = 0 \<rparr>,
       hbmp = [False, False], buffer = [None, None],
       clip_rect = \<lparr> rleft = 0, rtop = 0, rright = 0, rbottom = 0 \<rparr>,
       region_hwnd = False, cursor_error_printed = 0,
       grab_worker_quit = False, frame_in_stock = None, error_code = 0 \<rparr>"

definition sys0 :: "options \<Rightarrow> sys" where
  "sys0 opts =
     \<lparr> g = gdigrab0 opts,
       w = \<lparr> w_i = 0, w_sn = 0, w_time_base = 0, w_time_start = 0, w_time_end = 0,
             w_sleep_balance = 0, w_error = 0, w_frame_in_stock = None \<rparr>,
       wpc = WNone, mpc = MIdle, ticks = 0, allocs = 0,
       start_rets = [], outputs = [], close_rets = [],
       posted = [], grabs = [], usleeps = [] \<rparr>"

text \<open>The packets delivered by \<^verbatim>\<open>gdigrab_read_packet\<close> so far, oldest first.\<close>

fun packets :: "(int \<times> packet option) list \<Rightarrow> packet list" where
  "packets [] = []"
| "packets ((r, None) # rs) = packets rs"
| "packets ((r, Some p) # rs) = p # packets rs"

definition delivered :: "sys \<Rightarrow> packet list" where
  "delivered s = packets (outputs s)"

text \<open>What \<^verbatim>\<open>gdigrab_dc_destroy\<close> leaves: no window handle, no device context, no
  bitmap, no frame in stock, and no region window if one was asked for.\<close>

definition released :: "gdigrab \<Rightarrow> bool" where
  "released c =
     (\<not> hwnd c \<and> \<not> source_hdc c \<and> \<not> dest_hdc c \<and> (\<forall>h \<in> set (hbmp c). \<not> h) \<and>
      frame_in_stock c = None \<and> (show_region c \<noteq> 0 \<longrightarrow> \<not> region_hwnd c))"

section \<open>Invariants of the interleaving\<close>

text \<open>The worker is inside its loop.\<close>

definition in_loop :: "worker_pc \<Rightarrow> bool" where
  "in_loop p = (p = WGrab \<or> p = WPost \<or> p = WWait \<or> p = WWoken \<or> p = WSleep)"

text \<open>The number of iterations whose critical section is over.\<close>

definition completed :: "sys \<Rightarrow> nat" where
  "completed s = (if wpc s = WSleep then Suc (w_sn (w s)) else w_sn (w s))"

text \<open>The frames stored by the first \<open>k\<close> iterations: iteration \<open>sn\<close> uses buffer
  \<open>sn mod 2\<close> and begins with reading number \<open>3 * sn\<close> of the clock (each iteration
  reads the clock three times, after one reading before the loop).\<close>

definition frames :: "env \<Rightarrow> nat \<Rightarrow> (nat \<times> nat \<times> int) list" where
  "frames e k = map (\<lambda>sn. (sn, sn mod 2, clock e (3 * sn))) (filter (capture_ok e) [0..<k])"

text \<open>A stored frame and a delivered packet, as the pair of buffer and timestamp.\<close>

definition frame_of_post :: "nat \<times> nat \<times> int \<Rightarrow> nat option \<times> int" where
  "frame_of_post x = (case x of (sn, b, t) \<Rightarrow> (Some b, t))"

definition frame_of_packet :: "packet \<Rightarrow> nat option \<times> int" where
  "frame_of_packet p = (pkt_data p, pts p)"

text \<open>The parts of the invariant: the resources and error code by program point;
  the locals of the worker, the clock readings and the blits; the frames stored;
  the slot.\<close>

definition inv_shape :: "sys \<Rightarrow> bool" where
  "inv_shape s =
     (length (hbmp (g s)) = 2 \<and> length (buffer (g s)) = 2 \<and>
      (in_loop (wpc s) \<longrightarrow> buffer (g s) = [Some 0, Some 1] \<and> error_code (g s) = 0) \<and>
      (wpc s = WNone \<or> wpc s = WInit \<or> wpc s = WTrap \<longrightarrow>
         w_sn (w s) = 0 \<and> ticks s = 0 \<and> grabs s = []))"

definition inv_worker :: "env \<Rightarrow> sys \<Rightarrow> bool" where
  "inv_worker e s =
     ((in_loop (wpc s) \<longrightarrow> w_i (w s) = w_sn (w s) mod 2) \<and>
      (wpc s = WGrab \<longrightarrow>
         w_time_end (w s) = clock e (3 * w_sn (w s)) \<and> ticks s = 3 * w_sn (w s) + 1 \<and>
         length (grabs s) = w_sn (w s)) \<and>
      (wpc s = WPost \<or> wpc s = WWait \<or> wpc s = WWoken \<or> wpc s = WSleep \<longrightarrow>
         w_time_start (w s) = clock e (3 * w_sn (w s)) \<and> ticks s = 3 * w_sn (w s) + 2 \<and>
         length (grabs s) = Suc (w_sn (w s))) \<and>
      (wpc s = WPost \<or> wpc s = WWait \<or> wpc s = WWoken \<longrightarrow>
         w_frame_in_stock (w s) = (if capture_ok e (w_sn (w s)) then Some (w_sn (w s) mod 2) else None) \<and>
         w_error (w s) = (if capture_ok e (w_sn (w s)) then 0 else AVERROR EIO)) \<and>
      length (grabs s) \<le> Suc (w_sn (w s)) \<and>
      (\<forall>k < length (grabs s). grabs s ! k = (k, clock e (3 * k))) \<and>
      (0 < w_sn (w s) \<or> wpc s = WWait \<or> wpc s = WWoken \<or> wpc s = WSleep \<longrightarrow> capture_ok e 0))"

definition inv_posted :: "env \<Rightarrow> sys \<Rightarrow> bool" where
  "inv_posted e s = (posted s = frames e (completed s))"

text \<open>The frame in stock, if any.\<close>

definition pending :: "gdigrab \<Rightarrow> (nat option \<times> int) list" where
  "pending c = (case frame_in_stock c of None \<Rightarrow> [] | Some b \<Rightarrow> [(Some b, time_frame c)])"

definition inv_slot :: "sys \<Rightarrow> bool" where
  "inv_slot s =
     (map frame_of_post (posted s) = map frame_of_packet (delivered s) @ pending (g s) \<or>
      (wpc s = WDone \<and> frame_in_stock (g s) = None \<and>
       (\<exists>x. map frame_of_post (posted s) = map frame_of_packet (delivered s) @ [x])))"

definition inv :: "env \<Rightarrow> sys \<Rightarrow> bool" where
  "inv e s = (inv_shape s \<and> inv_worker e s \<and> inv_posted e s \<and> inv_slot s)"

text \<open>\<^verbatim>\<open>gdigrab_dc_init\<close> succeeds on the context as \<^verbatim>\<open>avformat\<close> hands it over.\<close>

definition init_ok :: "env \<Rightarrow> options \<Rightarrow> bool" where
  "init_ok e opts =
     (case gdigrab_dc_init (dc e) (gdigrab0 opts) of
        Trap \<Rightarrow> False
      | Ret (ret, x, calls, c1) \<Rightarrow> ret = 0)"


text \<open>The pulls that returned \<^verbatim>\<open>AVERROR(EIO)\<close> without a packet; the completed
  iterations whose blit failed; and whether a pull has been woken and finds no frame
  in stock (1 or 0).\<close>

definition eio_outputs :: "sys \<Rightarrow> nat" where
  "eio_outputs s = length (filter (\<lambda>r. r = (AVERROR EIO, None)) (outputs s))"


definition woken_empty :: "sys \<Rightarrow> nat" where
  "woken_empty s = (if mpc s = MReadWoken \<and> frame_in_stock (g s) = None then 1 else 0)"


text \<open>What holds when the first blit fails: the error code and the values returned
  by \<^verbatim>\<open>gdigrab_worker_start\<close> are 0 or \<^verbatim>\<open>AVERROR(EIO)\<close>; once the worker has grabbed it is
  in its critical section or gone with the error recorded; and once it is gone with
  the error recorded no caller is left in \<^verbatim>\<open>pthread_cond_wait\<close>.\<close>

definition inv_fatal :: "sys \<Rightarrow> bool" where
  "inv_fatal s =
     ((error_code (g s) = 0 \<or> error_code (g s) = AVERROR EIO) \<and>
      set (start_rets s) \<subseteq> {0, AVERROR EIO} \<and>
      (wpc s = WExit \<longrightarrow> grabs s = []) \<and>
      (grabs s \<noteq> [] \<longrightarrow> wpc s = WPost \<or> (wpc s = WDone \<and> error_code (g s) = AVERROR EIO)) \<and>
      (wpc s = WDone \<and> error_code (g s) \<noteq> 0 \<longrightarrow> mpc s \<noteq> MReadWait \<and> mpc s \<noteq> MStartWait))"


section \<open>Concrete scenarios\<close>

text \<open>A 1920x1080 desktop at 24 bits per pixel, every call succeeding; the frame
  period of the default rate 30000/1001.\<close>

definition desktop_dc :: dc_env where
  "desktop_dc =
     \<lparr> url = ''desktop'', FindWindow = (\<lambda>n. False), GetDC_ok = True, BITSPIXEL = 24,
       HORZRES = 1920, VERTRES = 1080, DESKTOPHORZRES = 1920, DESKTOPVERTRES = 1080,
       GetClientRect = \<lparr> rleft = 0, rtop = 0, rright = 0, rbottom = 0 \<rparr>,
       SM_XVIRTUALSCREEN = 0, SM_YVIRTUALSCREEN = 0,
       SM_CXVIRTUALSCREEN = 1920, SM_CYVIRTUALSCREEN = 1080,
       CreateCompatibleDC_ok = True, CreateDIBSection_ok = (\<lambda>i. True),
       GetObject = \<lparr> bmWidthBytes = 5760, bmHeight = 1080, bmPlanes = 1 \<rparr>,
       period = 33366, region_wnd_init_ok = True \<rparr>"

text \<open>The default options: the pointer drawn, no region window, the whole area.\<close>

definition default_options :: options where
  "default_options =
     \<lparr> opt_draw_mouse = 1, opt_show_region = 0, opt_width = 0, opt_height = 0,
       opt_offset_x = 0, opt_offset_y = 0 \<rparr>"

text \<open>An environment in which every blit but those of the listed iterations succeeds,
  and the clock advances by 11122 microseconds from one reading to the next.\<close>

definition failing_at :: "nat list \<Rightarrow> env" where
  "failing_at sns =
     \<lparr> dc = desktop_dc, thread_ok = True, capture_ok = (\<lambda>sn. sn \<notin> set sns),
       cursor_fails = (\<lambda>sn. False), clock = (\<lambda>k. 1000 + 11122 * int k),
       packet_ok = (\<lambda>k. True) \<rparr>"

text \<open>A worker at the pacing code after a stall: the period is 33366, the iteration
  began at time 0, and the clock reads 166830 (five periods later) and then 166840.\<close>

definition stalled_env :: env where
  "stalled_env = (failing_at [])\<lparr> clock := (\<lambda>k. if k = 0 then 166830 else 166840) \<rparr>"

definition stalled_sys :: sys where
  "stalled_sys =
     (sys0 default_options)
       \<lparr> w := \<lparr> w_i = 0, w_sn = 7, w_time_base = 33366, w_time_start = 0, w_time_end = 0,
                w_sleep_balance = 0, w_error = 0, w_frame_in_stock = Some 1 \<rparr>,
         wpc := WSleep \<rparr>"

text \<open>A context in which a fatal error is recorded while a frame is still in stock.\<close>

definition failed_with_frame :: sys where
  "failed_with_frame =
     (sys0 default_options)
       \<lparr> g := (gdigrab0 default_options)\<lparr> error_code := AVERROR EIO, frame_in_stock := Some 0,
                                            time_frame := 1000 \<rparr>,
         wpc := WDone \<rparr>"

text \<open>A 1366x768 desktop at 24 bits per pixel. A row of 1366 pixels takes 4098 bytes;
  GDI aligns the rows of a DIB section to four bytes, so \<^verbatim>\<open>GetObject\<close> reports
  \<^verbatim>\<open>bmWidthBytes = 4100\<close>.\<close>

definition laptop_dc :: dc_env where
  "laptop_dc =
     desktop_dc\<lparr> HORZRES := 1366, VERTRES := 768, DESKTOPHORZRES := 1366, DESKTOPVERTRES := 768,
                 SM_CXVIRTUALSCREEN := 1366, SM_CYVIRTUALSCREEN := 768,
                 GetObject := \<lparr> bmWidthBytes = 4100, bmHeight = 768, bmPlanes = 1 \<rparr> \<rparr>"

definition laptop_env :: env where
  "laptop_env = (failing_at [])\<lparr> dc := laptop_dc \<rparr>"

text \<open>The context after \<^verbatim>\<open>gdigrab_dc_init\<close> on that desktop.\<close>

definition laptop_ctx :: gdigrab where
  "laptop_ctx =
     \<lparr> frame_size = 3148800, header_size = 54, time_base = 33366, time_frame = 0,
       draw_mouse = 1, show_region = 0, width = 0, height = 0, offset_x = 0, offset_y = 0,
       hwnd = False, source_hdc = True, dest_hdc = True,
       bmi = \<lparr> biWidth = 1366, biHeight = - 768, biPlanes = 1, biBitCount = 24 \<rparr>,
       hbmp = [True, True], buffer = [Some 0, Some 1],
       clip_rect = \<lparr> rleft = 0, rtop = 0, rright = 1366, rbottom = 768 \<rparr>,
       region_hwnd = False, cursor_error_printed = 0,
       grab_worker_quit = False, frame_in_stock = None, error_code = 0 \<rparr>"

text \<open>The start, the first iteration of the worker, and one pull.\<close>

definition first_frame :: "event list" where
  "first_frame = [Start, Resume, Work, Resume, Work, Work, Read False]"

text \<open>The start and the first iteration of the worker up to its pacing code: the
  first frame is in stock.\<close>

definition first_posted :: "event list" where
  "first_posted = [Start, Resume, Work, Resume, Work, Work]"

text \<open>The same, and the worker goes on alone: it paces, grabs the second frame and
  waits for the first one to be consumed.\<close>

definition stock_full :: "event list" where
  "stock_full = first_posted @ [Work, Work, Work]"

text \<open>The first frame is pulled and the worker stores the second one.\<close>

definition second_posted :: "event list" where
  "second_posted = first_frame @ [Work, Work, Work]"

text \<open>A requested area of 4000x100 pixels, wider than the 1920x1080 desktop.\<close>

definition wide_options :: options where
  "wide_options = default_options\<lparr> opt_width := 4000, opt_height := 100 \<rparr>"

text \<open>A requested area of one pixel at the largest horizontal offset the option table
  admits: \<^verbatim>\<open>-video_size 1x1 -offset_x 2147483647\<close>.\<close>

definition edge_options :: options where
  "edge_options = default_options\<lparr> opt_width := 1, opt_height := 1, opt_offset_x := 2147483647 \<rparr>"


text \<open>The worker initialises before \<^verbatim>\<open>gdigrab_worker_start\<close> takes the lock, so the start
  waits for the next broadcast, which is the one of the worker's first critical
  section.\<close>

definition fatal_start_late :: "event list" where
  "fatal_start_late = [Start, Work, Resume, Work, Work, Resume]"


section \<open>Properties\<close>

subsection \<open>Auxiliary facts\<close>

lemma packets_append [simp]: "packets (rs @ rs') = packets rs @ packets rs'"
  by (induction rs rule: packets.induct) simp_all

lemma AVERROR_EIO_nonzero [simp]: "AVERROR EIO \<noteq> 0"
  by (simp add: AVERROR_def EIO_def)

lemma smod8: "(bpp :: int) smod 8 \<noteq> 0 \<longleftrightarrow> \<not> 8 dvd bpp"
proof -
  have "bpp smod 8 = 0 \<longleftrightarrow> \<bar>bpp\<bar> mod 8 = 0"
    by (cases "bpp = 0") (simp_all add: signed_modulo_int_def sgn_if)
  also have "\<dots> \<longleftrightarrow> 8 dvd \<bar>bpp\<bar>"
    by (simp add: dvd_eq_mod_eq_0)
  also have "\<dots> \<longleftrightarrow> 8 dvd bpp"
    by simp
  finally show ?thesis by simp
qed

lemma int32_id: "in_int32 x \<Longrightarrow> int32 x = x"
  by (simp add: int32_def in_int32_def)

lemma int32_range: "in_int32 (int32 x)"
  by (simp add: int32_def in_int32_def)

lemma int32_cong: "x mod 4294967296 = y mod 4294967296 \<Longrightarrow> int32 x = int32 y"
  unfolding int32_def by (metis mod_add_left_eq)

lemma int32_mod: "int32 x mod 4294967296 = x mod 4294967296"
  unfolding int32_def by (simp add: mod_simps)

lemma int32_mult_left: "int32 (int32 x * y) = int32 (x * y)"
  by (rule int32_cong) (metis int32_mod mod_mult_left_eq)

lemma dc_destroy_fields [simp]:
  "width (gdigrab_dc_destroy c) = width c"
  "height (gdigrab_dc_destroy c) = height c"
  "offset_x (gdigrab_dc_destroy c) = offset_x c"
  "offset_y (gdigrab_dc_destroy c) = offset_y c"
  "show_region (gdigrab_dc_destroy c) = show_region c"
  "hbmp (gdigrab_dc_destroy c) = map (\<lambda>h. False) (hbmp c)"
  "frame_in_stock (gdigrab_dc_destroy c) = None"
  "grab_worker_quit (gdigrab_dc_destroy c) = grab_worker_quit c"
  "error_code (gdigrab_dc_destroy c) = error_code c"
  "dest_hdc (gdigrab_dc_destroy c) = False"
  "source_hdc (gdigrab_dc_destroy c) = False"
  "hwnd (gdigrab_dc_destroy c) = False"
  by (simp_all add: gdigrab_dc_destroy_def)

lemma requested_clip_rect_cong:
  "width c' = width c \<Longrightarrow> height c' = height c \<Longrightarrow> offset_x c' = offset_x c \<Longrightarrow>
   offset_y c' = offset_y c \<Longrightarrow> requested_clip_rect c' v = requested_clip_rect c v"
  by (simp add: requested_clip_rect_def)

lemma requested_clip_rect_upd [simp]:
  "requested_clip_rect (c\<lparr> hwnd := h \<rparr>) v = requested_clip_rect c v"
  "requested_clip_rect (c\<lparr> show_region := r \<rparr>) v = requested_clip_rect c v"
  "requested_clip_rect (c\<lparr> source_hdc := d \<rparr>) v = requested_clip_rect c v"
  by (simp_all add: requested_clip_rect_def)

lemma dc_allocate_calls:
  "fst (snd (dc_allocate e clip bpp c)) \<noteq> []"
  "hd (fst (snd (dc_allocate e clip bpp c))) = Call_CreateCompatibleDC"
  "CreateCompatibleDC_ok e \<Longrightarrow>
     Call_CreateDIBSection 0 \<in> set (fst (snd (dc_allocate e clip bpp c)))"
  by (simp_all add: dc_allocate_def Let_def)

lemma dc_allocate_exit:
  "fst (dc_allocate e clip bpp c) \<noteq> Outside_area"
  "fst (dc_allocate e clip bpp c) \<noteq> Invalid_properties"
  by (simp_all add: dc_allocate_def Let_def)

lemma dc_body_resolved:
  assumes target: "if is_title (url e) then FindWindow e (drop 6 (url e)) else url e = ''desktop''"
      and dc: "GetDC_ok e"
      and res: "is_title (url e) \<or> (\<not> div_traps (scaled_right e) (HORZRES e) \<and>
                                   \<not> div_traps (scaled_bottom e) (VERTRES e))"
  shows "dc_body e c =
      (let h = is_title (url e);
           c2 = c\<lparr> hwnd := h,
                   show_region := (if h \<and> show_region c \<noteq> 0 then 0 else show_region c),
                   source_hdc := True \<rparr>;
           v = virtual_rect_of e h;
           clip = requested_clip_rect c v
       in if extends_outside clip v then Ret (Outside_area, [], c2)
          else if invalid_properties clip (BITSPIXEL e) then Ret (Invalid_properties, [], c2)
          else Ret (dc_allocate e clip (BITSPIXEL e) c2))"
proof (cases "is_title (url e)")
  case True
  with target dc show ?thesis
    by (simp add: dc_body_def Let_def)
next
  case False
  with target dc res show ?thesis
    by (simp add: dc_body_def Let_def)
qed

lemma dc_allocate_ok:
  assumes "dc_allocate e clip bpp c = (Init_ok, calls, c3)"
  shows "frame_size c3 =
           int32 (int32 (bmWidthBytes (GetObject e) * bmHeight (GetObject e)) * bmPlanes (GetObject e))"
    and "header_size c3 = sizeof_BITMAPFILEHEADER + sizeof_BITMAPINFOHEADER +
                          (if bpp \<le> 8 then 2 ^ nat bpp else 0) * sizeof_RGBQUAD"
    and "bmi c3 = \<lparr> biWidth = rect_width clip, biHeight = int32 (- rect_height clip),
                    biPlanes = 1, biBitCount = uint16 bpp \<rparr>"
    and "clip_rect c3 = clip"
    and "time_base c3 = period e"
    and "hbmp c3 = (hbmp c)[0 := True, 1 := True]"
    and "buffer c3 = (buffer c)[0 := Some 0, 1 := Some 1]"
    and "frame_in_stock c3 = frame_in_stock c"
    and "grab_worker_quit c3 = grab_worker_quit c"
    and "error_code c3 = error_code c"
  using assms
  by (auto simp: dc_allocate_def Let_def split: if_splits)

lemma dc_body_ok:
  assumes "dc_body e c = Ret (Init_ok, calls, c3)"
  shows "dc_allocate e (requested_clip_rect c (virtual_rect_of e (is_title (url e)))) (BITSPIXEL e)
           (c\<lparr> hwnd := is_title (url e),
               show_region := (if is_title (url e) \<and> show_region c \<noteq> 0 then 0 else show_region c),
               source_hdc := True \<rparr>) = (Init_ok, calls, c3)"
  using assms
  by (cases "is_title (url e)"; cases "show_region c = 0")
     (simp_all add: dc_body_def Let_def split: if_splits)

lemma dc_init_ok:
  assumes "gdigrab_dc_init e c = Ret (0, x, calls, c1)"
  shows "x = Init_ok"
    and "frame_size c1 =
           int32 (int32 (bmWidthBytes (GetObject e) * bmHeight (GetObject e)) * bmPlanes (GetObject e))"
    and "header_size c1 = sizeof_BITMAPFILEHEADER + sizeof_BITMAPINFOHEADER +
                          (if BITSPIXEL e \<le> 8 then 2 ^ nat (BITSPIXEL e) else 0) * sizeof_RGBQUAD"
    and "bmi c1 = \<lparr> biWidth = rect_width (clip_rect c1),
                    biHeight = int32 (- rect_height (clip_rect c1)),
                    biPlanes = 1, biBitCount = uint16 (BITSPIXEL e) \<rparr>"
    and "time_base c1 = period e"
    and "hbmp c1 = (map (\<lambda>h. False) (hbmp c))[0 := True, 1 := True]"
    and "length (hbmp c) = 2 \<Longrightarrow> length (buffer c) = 2 \<Longrightarrow> buffer c1 = [Some 0, Some 1]"
    and "frame_in_stock c1 = None"
    and "grab_worker_quit c1 = grab_worker_quit c"
    and "error_code c1 = 0"
proof -
  obtain c3 where body: "dc_body e (gdigrab_dc_destroy c) = Ret (Init_ok, calls, c3)"
    and c1: "c1 = c3\<lparr> error_code := 0 \<rparr>" and x: "x = Init_ok"
    using assms
    by (auto simp: gdigrab_dc_init_def Let_def split: outcome.splits if_splits)
  define c2 where "c2 = (gdigrab_dc_destroy c)\<lparr> hwnd := is_title (url e),
               show_region := (if is_title (url e) \<and> show_region (gdigrab_dc_destroy c) \<noteq> 0 then 0
                               else show_region (gdigrab_dc_destroy c)),
               source_hdc := True \<rparr>"
  define clip where
    "clip = requested_clip_rect (gdigrab_dc_destroy c) (virtual_rect_of e (is_title (url e)))"
  have al: "dc_allocate e clip (BITSPIXEL e) c2 = (Init_ok, calls, c3)"
    using dc_body_ok [OF body] by (simp add: c2_def clip_def)
  have c2: "hbmp c2 = hbmp (gdigrab_dc_destroy c)" "buffer c2 = buffer (gdigrab_dc_destroy c)"
       "frame_in_stock c2 = frame_in_stock (gdigrab_dc_destroy c)"
       "grab_worker_quit c2 = grab_worker_quit (gdigrab_dc_destroy c)"
    by (simp_all add: c2_def)
  note ok = dc_allocate_ok [OF al]
  show "x = Init_ok" by (rule x)
  show "frame_size c1 =
           int32 (int32 (bmWidthBytes (GetObject e) * bmHeight (GetObject e)) * bmPlanes (GetObject e))"
    using ok(1) c1 by simp
  show "header_size c1 = sizeof_BITMAPFILEHEADER + sizeof_BITMAPINFOHEADER +
                          (if BITSPIXEL e \<le> 8 then 2 ^ nat (BITSPIXEL e) else 0) * sizeof_RGBQUAD"
    using ok(2) c1 by simp
  show "bmi c1 = \<lparr> biWidth = rect_width (clip_rect c1),
                    biHeight = int32 (- rect_height (clip_rect c1)),
                    biPlanes = 1, biBitCount = uint16 (BITSPIXEL e) \<rparr>"
    using ok(3) ok(4) c1 by simp
  show "time_base c1 = period e" using ok(5) c1 by simp
  show "hbmp c1 = (map (\<lambda>h. False) (hbmp c))[0 := True, 1 := True]"
    using ok(6) c1 c2(1) by (simp add: gdigrab_dc_destroy_def)
  show "frame_in_stock c1 = None"
    using ok(8) c1 c2(3) by (simp add: gdigrab_dc_destroy_def)
  show "grab_worker_quit c1 = grab_worker_quit c"
    using ok(9) c1 c2(4) by (simp add: gdigrab_dc_destroy_def)
  show "error_code c1 = 0" using c1 by simp
  show "buffer c1 = [Some 0, Some 1]"
    if l1: "length (hbmp c) = 2" and l2: "length (buffer c) = 2"
  proof -
    obtain h0 h1 where h: "hbmp c = [h0, h1]"
      using l1 by (auto simp: length_Suc_conv numeral_2_eq_2)
    obtain b0 b1 where b: "buffer c = [b0, b1]"
      using l2 by (auto simp: length_Suc_conv numeral_2_eq_2)
    show ?thesis
      using ok(7) c1 c2(2) h b by (simp add: gdigrab_dc_destroy_def)
  qed
qed

lemma run_append: "run e (evs @ evs') s = run e evs' (run e evs s)"
  by (induction evs arbitrary: s) simp_all

lemma run_waiting: "wpc s = WWait \<Longrightarrow> run e (replicate n Work) s = s"
  by (induction n) (simp_all add: step_def worker_step_def)

lemma released_destroy: "released (gdigrab_dc_destroy c)"
  by (simp add: released_def gdigrab_dc_destroy_def)

lemma broadcast_fields [simp]:
  "g (broadcast s) = g s" "w (broadcast s) = w s" "ticks (broadcast s) = ticks s"
  "allocs (broadcast s) = allocs s" "start_rets (broadcast s) = start_rets s"
  "outputs (broadcast s) = outputs s" "close_rets (broadcast s) = close_rets s"
  "posted (broadcast s) = posted s" "grabs (broadcast s) = grabs s"
  "usleeps (broadcast s) = usleeps s"
  "wpc (broadcast s) = (if wpc s = WWait then WWoken else wpc s)"
  "mpc (broadcast s) =
     (case mpc s of MStartWait \<Rightarrow> MStartWoken | MReadWait \<Rightarrow> MReadWoken | p \<Rightarrow> p)"
  by (simp_all add: broadcast_def)

lemma worker_exit_fields [simp]:
  "g (worker_exit s) = gdigrab_dc_destroy (g s)" "wpc (worker_exit s) = WDone"
  "w (worker_exit s) = w s" "ticks (worker_exit s) = ticks s"
  "allocs (worker_exit s) = allocs s" "start_rets (worker_exit s) = start_rets s"
  "outputs (worker_exit s) = outputs s" "close_rets (worker_exit s) = close_rets s"
  "posted (worker_exit s) = posted s" "grabs (worker_exit s) = grabs s"
  "usleeps (worker_exit s) = usleeps s"
  "mpc (worker_exit s) =
     (case mpc s of MStartWait \<Rightarrow> MStartWoken | MReadWait \<Rightarrow> MReadWoken | p \<Rightarrow> p)"
  by (simp_all add: worker_exit_def)

lemma close_fields [simp]:
  "g (gdigrab_read_close s) = (g s)\<lparr> grab_worker_quit := True \<rparr>"
  "close_rets (gdigrab_read_close s) = close_rets s @ [0]"
  "wpc (gdigrab_read_close s) = (if wpc s = WWait then WWoken else wpc s)"
  "mpc (gdigrab_read_close s) =
     (case mpc s of MStartWait \<Rightarrow> MStartWoken | MReadWait \<Rightarrow> MReadWoken | p \<Rightarrow> p)"
  "w (gdigrab_read_close s) = w s" "ticks (gdigrab_read_close s) = ticks s"
  "allocs (gdigrab_read_close s) = allocs s" "start_rets (gdigrab_read_close s) = start_rets s"
  "outputs (gdigrab_read_close s) = outputs s"
  "posted (gdigrab_read_close s) = posted s" "grabs (gdigrab_read_close s) = grabs s"
  "usleeps (gdigrab_read_close s) = usleeps s"
  by (simp_all add: gdigrab_read_close_def)

lemma work_done: "wpc s = WDone \<Longrightarrow> step e Work s = s"
  by (simp add: step_def worker_step_def)

lemma work_exit: "wpc s = WExit \<Longrightarrow> step e Work s = worker_exit s"
  by (simp add: step_def worker_step_def)

lemma work_grab_quit:
  "wpc s = WGrab \<Longrightarrow> grab_worker_quit (g s) \<Longrightarrow> step e Work s = s\<lparr> wpc := WExit \<rparr>"
  by (simp add: step_def worker_step_def worker_grab_def)

lemma work_post_quit:
  "wpc s = WPost \<Longrightarrow> grab_worker_quit (g s) \<Longrightarrow>
     wpc (step e Work s) = WDone \<and> released (g (step e Work s)) \<and>
     close_rets (step e Work s) = close_rets s"
  by (simp add: step_def worker_step_def worker_post_def released_destroy)

lemma work_sleep:
  "wpc s = WSleep \<Longrightarrow> wpc (step e Work s) = WGrab \<and> g (step e Work s) = g s \<and>
     close_rets (step e Work s) = close_rets s"
  by (simp add: step_def worker_step_def worker_sleep_def Let_def split: prod.splits)

lemma quit_exit_in_three:
  assumes q: "grab_worker_quit (g s)"
      and pc: "wpc s = WGrab \<or> wpc s = WPost \<or> wpc s = WSleep \<or> wpc s = WExit"
  shows "wpc (run e [Work, Work, Work] s) = WDone \<and> released (g (run e [Work, Work, Work] s)) \<and>
         close_rets (run e [Work, Work, Work] s) = close_rets s"
proof -
  have ex: "wpc (run e [Work, Work] t) = WDone \<and> released (g (run e [Work, Work] t)) \<and>
         close_rets (run e [Work, Work] t) = close_rets t" if "wpc t = WExit" for t
    using that by (simp add: work_exit work_done released_destroy)
  have gr: "wpc (run e [Work, Work] t) = WDone \<and> released (g (run e [Work, Work] t)) \<and>
         close_rets (run e [Work, Work] t) = close_rets t"
    if "wpc t = WGrab" "grab_worker_quit (g t)" for t
    using that by (simp add: work_grab_quit work_exit released_destroy)
  from pc show ?thesis
  proof (elim disjE)
    assume "wpc s = WGrab"
    with q gr [of s] show ?thesis
      by (simp add: work_done)
  next
    assume "wpc s = WPost"
    with q work_post_quit [of s e] show ?thesis
      by (simp add: work_done)
  next
    assume p: "wpc s = WSleep"
    from work_sleep [OF p, of e] q gr [of "step e Work s"] show ?thesis
      by simp
  next
    assume "wpc s = WExit"
    with ex [of s] show ?thesis
      by (simp add: work_done)
  qed
qed

subsection \<open>The invariant holds in every reachable state\<close>

lemma frames_0 [simp]: "frames e 0 = []"
  by (simp add: frames_def)

lemma frames_Suc:
  "frames e (Suc k) = frames e k @ (if capture_ok e k then [(k, k mod 2, clock e (3 * k))] else [])"
  by (simp add: frames_def)

lemma inv_init: "inv e (sys0 opts)"
  by (simp add: inv_def inv_shape_def inv_worker_def inv_posted_def inv_slot_def sys0_def
      gdigrab0_def in_loop_def completed_def delivered_def pending_def)

lemma pending_upd [simp]:
  "pending (c\<lparr> error_code := x \<rparr>) = pending c"
  "pending (c\<lparr> grab_worker_quit := q \<rparr>) = pending c"
  "pending (c\<lparr> cursor_error_printed := n \<rparr>) = pending c"
  "pending (c\<lparr> frame_in_stock := None \<rparr>) = []"
  "pending (c\<lparr> time_frame := tf, frame_in_stock := Some b \<rparr>) = [(Some b, tf)]"
  "pending (c\<lparr> time_frame := tf, frame_in_stock := None \<rparr>) = []"
  by (simp_all add: pending_def split: option.splits)

lemma pending_None: "frame_in_stock c = None \<Longrightarrow> pending c = []"
  by (simp add: pending_def)

lemma pending_Some: "frame_in_stock c = Some b \<Longrightarrow> pending c = [(Some b, time_frame c)]"
  by (simp add: pending_def)

lemma packets_snoc [simp]:
  "packets (rs @ [(r, None)]) = packets rs"
  "packets (rs @ [(r, Some p)]) = packets rs @ [p]"
  by simp_all

text \<open>The steps of the calling thread.\<close>

lemma start_call_inv:
  assumes "inv_shape s" "inv_worker e s" "inv_posted e s" "inv_slot s"
  shows "inv_shape (start_call e s)" "inv_worker e (start_call e s)"
    "inv_posted e (start_call e s)" "inv_slot (start_call e s)"
proof -
  show "inv_shape (start_call e s)"
    using assms(1) by (simp add: inv_shape_def start_call_def in_loop_def Let_def)
  show "inv_worker e (start_call e s)"
    using assms(2) by (simp add: inv_worker_def start_call_def in_loop_def Let_def)
  show "inv_posted e (start_call e s)"
    using assms(3) by (simp add: inv_posted_def completed_def start_call_def Let_def)
  show "inv_slot (start_call e s)"
    using assms(4) by (auto simp add: inv_slot_def delivered_def start_call_def Let_def)
qed

lemma start_lock_inv:
  assumes "inv_shape s" "inv_worker e s" "inv_posted e s" "inv_slot s"
  shows "inv_shape (start_lock s)" "inv_worker e (start_lock s)"
    "inv_posted e (start_lock s)" "inv_slot (start_lock s)"
proof -
  show "inv_shape (start_lock s)"
    using assms(1) by (simp add: inv_shape_def start_lock_def)
  show "inv_worker e (start_lock s)"
    using assms(2) by (simp add: inv_worker_def start_lock_def)
  show "inv_posted e (start_lock s)"
    using assms(3) by (simp add: inv_posted_def completed_def start_lock_def)
  show "inv_slot (start_lock s)"
    using assms(4) by (simp add: inv_slot_def delivered_def start_lock_def)
qed

lemma start_return_inv:
  assumes "inv_shape s" "inv_worker e s" "inv_posted e s" "inv_slot s"
  shows "inv_shape (start_return s)" "inv_worker e (start_return s)"
    "inv_posted e (start_return s)" "inv_slot (start_return s)"
proof -
  show "inv_shape (start_return s)"
    using assms(1) by (simp add: inv_shape_def start_return_def)
  show "inv_worker e (start_return s)"
    using assms(2) by (simp add: inv_worker_def start_return_def)
  show "inv_posted e (start_return s)"
    using assms(3) by (simp add: inv_posted_def completed_def start_return_def)
  show "inv_slot (start_return s)"
    using assms(4) by (simp add: inv_slot_def delivered_def start_return_def)
qed

text \<open>Wake-ups.\<close>

lemma in_loop_wake [simp]: "in_loop (if p = WWait then WWoken else p) = in_loop p"
  by (simp add: in_loop_def)

lemma wake_eq [simp]:
  "((if p = WWait then WWoken else p) = WNone) = (p = WNone)"
  "((if p = WWait then WWoken else p) = WInit) = (p = WInit)"
  "((if p = WWait then WWoken else p) = WGrab) = (p = WGrab)"
  "((if p = WWait then WWoken else p) = WPost) = (p = WPost)"
  "((if p = WWait then WWoken else p) = WSleep) = (p = WSleep)"
  "((if p = WWait then WWoken else p) = WExit) = (p = WExit)"
  "((if p = WWait then WWoken else p) = WDone) = (p = WDone)"
  "((if p = WWait then WWoken else p) = WTrap) = (p = WTrap)"
  "((if p = WWait then WWoken else p) = WWait) = False"
  "((if p = WWait then WWoken else p) = WWoken) = (p = WWait \<or> p = WWoken)"
  by auto

text \<open>A step that changes nothing the worker owns, and wakes at most.\<close>

lemma inv_shape_wake:
  assumes "inv_shape s"
    and "hbmp (g s') = hbmp (g s)" "buffer (g s') = buffer (g s)"
    and "error_code (g s') = error_code (g s)"
    and "w s' = w s" "ticks s' = ticks s" "grabs s' = grabs s"
    and "wpc s' = (if wpc s = WWait then WWoken else wpc s)"
  shows "inv_shape s'"
  using assms by (simp add: inv_shape_def)

lemma inv_worker_wake:
  assumes "inv_worker e s"
    and "w s' = w s" "ticks s' = ticks s" "grabs s' = grabs s"
    and "wpc s' = (if wpc s = WWait then WWoken else wpc s)"
  shows "inv_worker e s'"
  using assms by (auto simp add: inv_worker_def)

lemma inv_posted_wake:
  assumes "inv_posted e s"
    and "w s' = w s" "posted s' = posted s"
    and "wpc s' = (if wpc s = WWait then WWoken else wpc s)"
  shows "inv_posted e s'"
  using assms by (simp add: inv_posted_def completed_def)

lemma inv_slot_wake:
  assumes "inv_slot s"
    and "posted s' = posted s" "delivered s' = delivered s"
    and "pending (g s') = pending (g s)" "frame_in_stock (g s') = frame_in_stock (g s)"
    and "wpc s' = (if wpc s = WWait then WWoken else wpc s)"
  shows "inv_slot s'"
  using assms by (simp add: inv_slot_def)


text \<open>Pulling and closing.\<close>

lemma read_return_fields [simp]:
  "g (read_return (ret, pkt, c) s) = c"
  "outputs (read_return (ret, pkt, c) s) = outputs s @ [(ret, pkt)]"
  "mpc (read_return (ret, pkt, c) s) = MIdle"
  "wpc (read_return (ret, pkt, c) s) = (if wpc s = WWait then WWoken else wpc s)"
  "w (read_return (ret, pkt, c) s) = w s" "ticks (read_return (ret, pkt, c) s) = ticks s"
  "allocs (read_return (ret, pkt, c) s) = allocs s"
  "start_rets (read_return (ret, pkt, c) s) = start_rets s"
  "close_rets (read_return (ret, pkt, c) s) = close_rets s"
  "posted (read_return (ret, pkt, c) s) = posted s" "grabs (read_return (ret, pkt, c) s) = grabs s"
  "usleeps (read_return (ret, pkt, c) s) = usleeps s"
  by (simp_all add: read_return_def)

lemma read_none_inv:
  assumes "inv_shape s" "inv_worker e s" "inv_posted e s" "inv_slot s"
  shows "inv_shape (read_return (ret, None, g s) s)" "inv_worker e (read_return (ret, None, g s) s)"
    "inv_posted e (read_return (ret, None, g s) s)" "inv_slot (read_return (ret, None, g s) s)"
proof -
  show "inv_shape (read_return (ret, None, g s) s)"
    by (rule inv_shape_wake [OF assms(1)]) simp_all
  show "inv_worker e (read_return (ret, None, g s) s)"
    by (rule inv_worker_wake [OF assms(2)]) simp_all
  show "inv_posted e (read_return (ret, None, g s) s)"
    by (rule inv_posted_wake [OF assms(3)]) simp_all
  show "inv_slot (read_return (ret, None, g s) s)"
    by (rule inv_slot_wake [OF assms(4)]) (simp_all add: delivered_def)
qed

lemma copy_frame_fail: "gdigrab_copy_frame False c = (AVERROR ENOMEM, None, c)"
  by (simp add: gdigrab_copy_frame_def)

lemma copy_frame_ok:
  "\<exists>n p. gdigrab_copy_frame True c = (n, Some p, c\<lparr> frame_in_stock := None \<rparr>) \<and>
         frame_of_packet p = (frame_in_stock c, time_frame c)"
  by (simp add: gdigrab_copy_frame_def Let_def frame_of_packet_def)

lemma copy_frame_call_cases:
  "copy_frame_call e s = read_return (AVERROR ENOMEM, None, g s) (s\<lparr> allocs := allocs s + 1 \<rparr>) \<or>
   (\<exists>n p. copy_frame_call e s =
            read_return (n, Some p, (g s)\<lparr> frame_in_stock := None \<rparr>) (s\<lparr> allocs := allocs s + 1 \<rparr>) \<and>
          frame_of_packet p = (frame_in_stock (g s), time_frame (g s)))"
proof (cases "packet_ok e (allocs s)")
  case True
  obtain n p where "gdigrab_copy_frame True (g s) = (n, Some p, (g s)\<lparr> frame_in_stock := None \<rparr>)"
      "frame_of_packet p = (frame_in_stock (g s), time_frame (g s))"
    using copy_frame_ok [of "g s"] by blast
  with True have "copy_frame_call e s =
            read_return (n, Some p, (g s)\<lparr> frame_in_stock := None \<rparr>) (s\<lparr> allocs := allocs s + 1 \<rparr>) \<and>
          frame_of_packet p = (frame_in_stock (g s), time_frame (g s))"
    by (simp add: copy_frame_call_def)
  then show ?thesis by blast
next
  case False
  then show ?thesis
    by (simp add: copy_frame_call_def copy_frame_fail)
qed

lemma inv_allocs [simp]:
  "inv_shape (s\<lparr> allocs := n \<rparr>) = inv_shape s"
  "inv_worker e (s\<lparr> allocs := n \<rparr>) = inv_worker e s"
  "inv_posted e (s\<lparr> allocs := n \<rparr>) = inv_posted e s"
  "inv_slot (s\<lparr> allocs := n \<rparr>) = inv_slot s"
  by (simp_all add: inv_shape_def inv_worker_def inv_posted_def inv_slot_def completed_def delivered_def)

lemma copy_frame_call_inv:
  assumes "inv_shape s" "inv_worker e s" "inv_posted e s" "inv_slot s"
    and f: "frame_in_stock (g s) \<noteq> None"
  shows "inv_shape (copy_frame_call e s)" "inv_worker e (copy_frame_call e s)"
    "inv_posted e (copy_frame_call e s)" "inv_slot (copy_frame_call e s)"
proof -
  let ?t = "s\<lparr> allocs := allocs s + 1 \<rparr>"
  have t: "inv_shape ?t" "inv_worker e ?t" "inv_posted e ?t" "inv_slot ?t" "g ?t = g s"
    using assms by simp_all
  from copy_frame_call_cases [of e s]
  consider (fail) "copy_frame_call e s = read_return (AVERROR ENOMEM, None, g ?t) ?t"
    | (ok) n p where "copy_frame_call e s =
            read_return (n, Some p, (g s)\<lparr> frame_in_stock := None \<rparr>) ?t"
          "frame_of_packet p = (frame_in_stock (g s), time_frame (g s))"
    by auto
  then have "inv_shape (copy_frame_call e s) \<and> inv_worker e (copy_frame_call e s) \<and>
    inv_posted e (copy_frame_call e s) \<and> inv_slot (copy_frame_call e s)"
  proof cases
    case fail
    then show ?thesis
      using read_none_inv [OF t(1-4), of "AVERROR ENOMEM"] by simp
  next
    case ok
    let ?u = "read_return (n, Some p, (g s)\<lparr> frame_in_stock := None \<rparr>) ?t"
    have 1: "inv_shape ?u"
      by (rule inv_shape_wake [OF assms(1)]) simp_all
    have 2: "inv_worker e ?u"
      by (rule inv_worker_wake [OF assms(2)]) simp_all
    have 3: "inv_posted e ?u"
      by (rule inv_posted_wake [OF assms(3)]) simp_all
    obtain b where b: "frame_in_stock (g s) = Some b"
      using f by auto
    have "map frame_of_post (posted s) = map frame_of_packet (delivered s) @ [(Some b, time_frame (g s))]"
      using assms(4) b by (simp add: inv_slot_def pending_Some)
    then have 4: "inv_slot ?u"
      using ok(2) b by (simp add: inv_slot_def delivered_def)
    from 1 2 3 4 ok(1) show ?thesis by simp
  qed
  then show "inv_shape (copy_frame_call e s)" "inv_worker e (copy_frame_call e s)"
    "inv_posted e (copy_frame_call e s)" "inv_slot (copy_frame_call e s)"
    by simp_all
qed

lemma inv_mpc [simp]:
  "inv_shape (s\<lparr> mpc := p \<rparr>) = inv_shape s"
  "inv_worker e (s\<lparr> mpc := p \<rparr>) = inv_worker e s"
  "inv_posted e (s\<lparr> mpc := p \<rparr>) = inv_posted e s"
  "inv_slot (s\<lparr> mpc := p \<rparr>) = inv_slot s"
  by (simp_all add: inv_shape_def inv_worker_def inv_posted_def inv_slot_def completed_def delivered_def)

lemma read_call_inv:
  assumes "inv_shape s" "inv_worker e s" "inv_posted e s" "inv_slot s"
  shows "inv_shape (read_call e nb s)" "inv_worker e (read_call e nb s)"
    "inv_posted e (read_call e nb s)" "inv_slot (read_call e nb s)"
  using assms read_none_inv [OF assms] copy_frame_call_inv [OF assms]
  by (simp_all add: read_call_def)

lemma read_woken_inv:
  assumes "inv_shape s" "inv_worker e s" "inv_posted e s" "inv_slot s"
  shows "inv_shape (read_woken e s)" "inv_worker e (read_woken e s)"
    "inv_posted e (read_woken e s)" "inv_slot (read_woken e s)"
  using assms read_none_inv [OF assms] copy_frame_call_inv [OF assms]
  by (simp_all add: read_woken_def)

lemma read_close_inv:
  assumes "inv_shape s" "inv_worker e s" "inv_posted e s" "inv_slot s"
  shows "inv_shape (gdigrab_read_close s)" "inv_worker e (gdigrab_read_close s)"
    "inv_posted e (gdigrab_read_close s)" "inv_slot (gdigrab_read_close s)"
proof -
  show "inv_shape (gdigrab_read_close s)"
    by (rule inv_shape_wake [OF assms(1)]) simp_all
  show "inv_worker e (gdigrab_read_close s)"
    by (rule inv_worker_wake [OF assms(2)]) simp_all
  show "inv_posted e (gdigrab_read_close s)"
    by (rule inv_posted_wake [OF assms(3)]) simp_all
  show "inv_slot (gdigrab_read_close s)"
    by (rule inv_slot_wake [OF assms(4)]) (simp_all add: delivered_def)
qed

lemma caller_resume_inv:
  assumes "inv_shape s" "inv_worker e s" "inv_posted e s" "inv_slot s"
  shows "inv_shape (caller_resume e s)" "inv_worker e (caller_resume e s)"
    "inv_posted e (caller_resume e s)" "inv_slot (caller_resume e s)"
  using assms start_lock_inv [OF assms] start_return_inv [OF assms] read_woken_inv [OF assms]
  by (simp_all add: caller_resume_def split: caller_pc.splits)


text \<open>The steps of the worker.\<close>

lemma dc_destroy_lengths:
  "length (hbmp c) = 2 \<Longrightarrow> length (buffer c) = 2 \<Longrightarrow>
   length (hbmp (gdigrab_dc_destroy c)) = 2 \<and> length (buffer (gdigrab_dc_destroy c)) = 2"
  by (simp add: gdigrab_dc_destroy_def)

lemma dc_allocate_keeps [simp]:
  "length (hbmp (snd (snd (dc_allocate e clip bpp c)))) = length (hbmp c)"
  "length (buffer (snd (snd (dc_allocate e clip bpp c)))) = length (buffer c)"
  "frame_in_stock (snd (snd (dc_allocate e clip bpp c))) = frame_in_stock c"
  by (simp_all add: dc_allocate_def Let_def)

lemma dc_body_keeps:
  assumes "dc_body e c = Ret r"
  shows "length (hbmp (snd (snd r))) = length (hbmp c)"
    and "length (buffer (snd (snd r))) = length (buffer c)"
    and "frame_in_stock (snd (snd r)) = frame_in_stock c"
  using assms by (auto simp: dc_body_def Let_def split: if_splits)

lemma dc_init_any:
  assumes "gdigrab_dc_init e c = Ret (ret, x, calls, c1)"
    and "length (hbmp c) = 2" "length (buffer c) = 2"
  shows "length (hbmp c1) = 2" "length (buffer c1) = 2" "frame_in_stock c1 = None"
    "error_code c1 = ret"
proof -
  obtain r where r: "dc_body e (gdigrab_dc_destroy c) = Ret r"
    and c1: "c1 = (if ret \<noteq> 0 then gdigrab_dc_destroy (snd (snd r)) else snd (snd r))\<lparr> error_code := ret \<rparr>"
    using assms(1)
    by (auto simp: gdigrab_dc_init_def Let_def split: outcome.splits if_splits)
  note k = dc_body_keeps [OF r]
  have l: "length (hbmp (snd (snd r))) = 2" "length (buffer (snd (snd r))) = 2"
    using k(1,2) dc_destroy_lengths [OF assms(2,3)] by simp_all
  show "length (hbmp c1) = 2" "length (buffer c1) = 2"
    using l dc_destroy_lengths [OF l] by (simp_all add: c1)
  show "frame_in_stock c1 = None"
    using k(3) by (simp add: c1)
  show "error_code c1 = ret"
    by (simp add: c1)
qed

lemma inv_g_error [simp]:
  "inv_worker e (s\<lparr> g := c \<rparr>) = inv_worker e s"
  "inv_posted e (s\<lparr> g := c \<rparr>) = inv_posted e s"
  "inv_slot (s\<lparr> g := (g s)\<lparr> error_code := x \<rparr> \<rparr>) = inv_slot s"
  by (simp_all add: inv_worker_def inv_posted_def inv_slot_def completed_def delivered_def)

lemma worker_exit_inv:
  assumes "length (hbmp (g s)) = 2" "length (buffer (g s)) = 2"
    and "inv_worker e s" "inv_posted e s" "inv_slot s" "wpc s \<noteq> WDone" "wpc s \<noteq> WSleep"
  shows "inv_shape (worker_exit s)" "inv_worker e (worker_exit s)"
    "inv_posted e (worker_exit s)" "inv_slot (worker_exit s)"
proof -
  show "inv_shape (worker_exit s)"
    using dc_destroy_lengths [OF assms(1,2)] by (simp add: inv_shape_def in_loop_def)
  show "inv_worker e (worker_exit s)"
    using assms(3) by (simp add: inv_worker_def in_loop_def)
  show "inv_posted e (worker_exit s)"
    using assms(4,7) by (simp add: inv_posted_def completed_def)
  have "map frame_of_post (posted s) = map frame_of_packet (delivered s) @ pending (g s)"
    using assms(5,6) by (simp add: inv_slot_def)
  then show "inv_slot (worker_exit s)"
    by (cases "frame_in_stock (g s)")
       (simp_all add: inv_slot_def delivered_def pending_def)
qed


lemma worker_init_inv:
  assumes sh: "inv_shape s" and wk: "inv_worker e s" and po: "inv_posted e s" and sl: "inv_slot s"
    and pc: "wpc s = WInit"
  shows "inv_shape (worker_init e s)" "inv_worker e (worker_init e s)"
    "inv_posted e (worker_init e s)" "inv_slot (worker_init e s)"
proof -
  have pre: "w_sn (w s) = 0" "ticks s = 0" "grabs s = []"
      "length (hbmp (g s)) = 2" "length (buffer (g s)) = 2"
    using sh pc by (simp_all add: inv_shape_def)
  have p0: "posted s = []"
    using po pc pre(1) by (simp add: inv_posted_def completed_def)
  have d0: "delivered s = []"
    using sl pc p0 by (simp add: inv_slot_def)
  have all: "inv_shape (worker_init e s) \<and> inv_worker e (worker_init e s) \<and>
    inv_posted e (worker_init e s) \<and> inv_slot (worker_init e s)"
  proof (cases "gdigrab_dc_init (dc e) (g s)")
    case Trap
    then have eq: "worker_init e s = s\<lparr> wpc := WTrap \<rparr>"
      by (simp add: worker_init_def)
    show ?thesis
      unfolding eq using sh wk po sl pc pre
      by (simp add: inv_shape_def inv_worker_def inv_posted_def inv_slot_def in_loop_def
          completed_def delivered_def)
  next
    case (Ret r)
    obtain ret x calls c1 where r: "r = (ret, x, calls, c1)"
      by (cases r) auto
    note any = dc_init_any [OF Ret [unfolded r] pre(4,5)]
    show ?thesis
    proof (cases "ret = 0")
      case True
      note ok = dc_init_ok [OF Ret [unfolded r True]]
      have eq: "worker_init e s = (broadcast (s\<lparr> g := c1 \<rparr>))
              \<lparr> w := (w s)\<lparr> w_i := 0, w_sn := 0, w_time_base := time_base c1,
                             w_time_end := clock e (ticks s), w_sleep_balance := 0,
                             w_error := 0, w_frame_in_stock := None \<rparr>,
                wpc := WGrab,
                ticks := ticks s + 1 \<rparr>"
        using Ret r True by (simp add: worker_init_def)
      show ?thesis
        unfolding eq using pre p0 d0 any ok(7) [OF pre(4,5)] ok(10)
        by (simp add: inv_shape_def inv_worker_def inv_posted_def inv_slot_def in_loop_def
          completed_def delivered_def pending_None)
    next
      case False
      have eq: "worker_init e s = (broadcast (s\<lparr> g := c1 \<rparr>))\<lparr> wpc := WExit \<rparr>"
        using Ret r False by (simp add: worker_init_def)
      show ?thesis
        unfolding eq using pre p0 d0 any
        by (simp add: inv_shape_def inv_worker_def inv_posted_def inv_slot_def in_loop_def
          completed_def delivered_def pending_None)
    qed
  qed
  then show "inv_shape (worker_init e s)" "inv_worker e (worker_init e s)"
    "inv_posted e (worker_init e s)" "inv_slot (worker_init e s)"
    by simp_all
qed

lemma two_buffers: "i < 2 \<Longrightarrow> [Some 0, Some (Suc 0)] ! i = Some i"
  by (cases i) simp_all

lemma upt_snoc_map: "map f [0..<n] @ [f n] = map f [0..<Suc n]"
  by simp

lemma worker_grab_inv:
  assumes sh: "inv_shape s" and wk: "inv_worker e s" and po: "inv_posted e s" and sl: "inv_slot s"
    and pc: "wpc s = WGrab"
  shows "inv_shape (worker_grab e s)" "inv_worker e (worker_grab e s)"
    "inv_posted e (worker_grab e s)" "inv_slot (worker_grab e s)"
proof -
  have pre: "length (hbmp (g s)) = 2" "length (buffer (g s)) = 2"
      "buffer (g s) = [Some 0, Some 1]" "error_code (g s) = 0"
    using sh pc by (simp_all add: inv_shape_def in_loop_def)
  have wp: "w_i (w s) = w_sn (w s) mod 2" "w_time_end (w s) = clock e (3 * w_sn (w s))"
      "ticks s = 3 * w_sn (w s) + 1" "length (grabs s) = w_sn (w s)"
      "\<forall>k < w_sn (w s). grabs s ! k = (k, clock e (3 * k))"
      "0 < w_sn (w s) \<longrightarrow> capture_ok e 0"
    using wk pc by (simp_all add: inv_worker_def in_loop_def)
  have buf: "buffer (g s) ! w_i (w s) = Some (w_sn (w s) mod 2)"
    using pre(3) wp(1) two_buffers [of "w_sn (w s) mod 2"] by simp
  show "inv_shape (worker_grab e s)"
    using pre pc by (simp add: worker_grab_def inv_shape_def in_loop_def Let_def)
  show "inv_worker e (worker_grab e s)"
    using wp pc buf
    by (simp add: worker_grab_def inv_worker_def in_loop_def Let_def nth_append less_Suc_eq)
  show "inv_posted e (worker_grab e s)"
    using po pc by (simp add: worker_grab_def inv_posted_def completed_def Let_def)
  show "inv_slot (worker_grab e s)"
    using sl pc by (simp add: worker_grab_def inv_slot_def delivered_def Let_def)
qed

lemma worker_sleep_inv:
  assumes sh: "inv_shape s" and wk: "inv_worker e s" and po: "inv_posted e s" and sl: "inv_slot s"
    and pc: "wpc s = WSleep"
  shows "inv_shape (worker_sleep e s)" "inv_worker e (worker_sleep e s)"
    "inv_posted e (worker_sleep e s)" "inv_slot (worker_sleep e s)"
proof -
  have pre: "length (hbmp (g s)) = 2" "length (buffer (g s)) = 2"
      "buffer (g s) = [Some 0, Some 1]" "error_code (g s) = 0"
    using sh pc by (simp_all add: inv_shape_def in_loop_def)
  have wp: "w_i (w s) = w_sn (w s) mod 2"
      "ticks s = 3 * w_sn (w s) + 2" "length (grabs s) = Suc (w_sn (w s))"
      "\<forall>k < Suc (w_sn (w s)). grabs s ! k = (k, clock e (3 * k))"
      "capture_ok e 0"
    using wk pc by (simp_all add: inv_worker_def in_loop_def)
  have t: "Suc (Suc (Suc (3 * w_sn (w s)))) = 3 * Suc (w_sn (w s))"
    by simp
  show "inv_shape (worker_sleep e s)"
    using pre pc by (simp add: worker_sleep_def inv_shape_def in_loop_def Let_def split: prod.splits)
  show "inv_worker e (worker_sleep e s)"
    using wp pc
    by (simp add: worker_sleep_def inv_worker_def in_loop_def Let_def mod_Suc t
        del: mult_Suc_right split: prod.splits)
  show "inv_posted e (worker_sleep e s)"
    using po pc by (simp add: worker_sleep_def inv_posted_def completed_def Let_def split: prod.splits)
  show "inv_slot (worker_sleep e s)"
    using sl pc by (simp add: worker_sleep_def inv_slot_def delivered_def Let_def split: prod.splits)
qed

lemma frame_of_post_simp [simp]: "frame_of_post (sn, b, t) = (Some b, t)"
  by (simp add: frame_of_post_def)

lemma worker_wait_loop_inv:
  assumes sh: "inv_shape s" and wk: "inv_worker e s" and po: "inv_posted e s" and sl: "inv_slot s"
    and pc: "wpc s = WPost \<or> wpc s = WWoken" and first: "capture_ok e 0"
  shows "inv_shape (worker_wait_loop s)" "inv_worker e (worker_wait_loop s)"
    "inv_posted e (worker_wait_loop s)" "inv_slot (worker_wait_loop s)"
proof -
  have pre: "length (hbmp (g s)) = 2" "length (buffer (g s)) = 2"
      "buffer (g s) = [Some 0, Some 1]" "error_code (g s) = 0"
    using pc sh by (elim disjE; simp add: inv_shape_def in_loop_def)+
  have wp: "w_i (w s) = w_sn (w s) mod 2" "w_time_start (w s) = clock e (3 * w_sn (w s))"
      "ticks s = 3 * w_sn (w s) + 2" "length (grabs s) = Suc (w_sn (w s))"
      "\<forall>k < Suc (w_sn (w s)). grabs s ! k = (k, clock e (3 * k))"
      "w_frame_in_stock (w s) = (if capture_ok e (w_sn (w s)) then Some (w_sn (w s) mod 2) else None)"
      "w_error (w s) = (if capture_ok e (w_sn (w s)) then 0 else AVERROR EIO)"
    using pc wk by (elim disjE; simp add: inv_worker_def in_loop_def)+
  have ps: "posted s = frames e (w_sn (w s))"
    using pc po by (elim disjE; simp add: inv_posted_def completed_def)
  have nd: "wpc s \<noteq> WDone" "wpc s \<noteq> WSleep"
    using pc by auto
  have all: "inv_shape (worker_wait_loop s) \<and> inv_worker e (worker_wait_loop s) \<and>
    inv_posted e (worker_wait_loop s) \<and> inv_slot (worker_wait_loop s)"
  proof (cases "frame_in_stock (g s) \<noteq> None")
    case True
    then have eq: "worker_wait_loop s = s\<lparr> wpc := WWait \<rparr>"
      by (simp add: worker_wait_loop_def)
    have 1: "inv_shape (s\<lparr> wpc := WWait \<rparr>)"
      using pre by (simp add: inv_shape_def in_loop_def)
    have 2: "inv_worker e (s\<lparr> wpc := WWait \<rparr>)"
      using wp first by (simp add: inv_worker_def in_loop_def)
    have 3: "inv_posted e (s\<lparr> wpc := WWait \<rparr>)"
      using ps by (simp add: inv_posted_def completed_def)
    have 4: "inv_slot (s\<lparr> wpc := WWait \<rparr>)"
      using sl nd by (simp add: inv_slot_def delivered_def)
    from 1 2 3 4 show ?thesis by (simp add: eq)
  next
    case False
    then have empty: "frame_in_stock (g s) = None" by simp
    have pd: "map frame_of_post (posted s) = map frame_of_packet (delivered s)"
      using sl nd empty by (simp add: inv_slot_def pending_None)
    show ?thesis
    proof (cases "grab_worker_quit (g s)")
      case True
      then have eq: "worker_wait_loop s = worker_exit s"
        using empty by (simp add: worker_wait_loop_def)
      show ?thesis
        using worker_exit_inv [OF pre(1,2) wk po sl nd] by (simp add: eq)
    next
      case False
      let ?s' = "(broadcast
           (s\<lparr> g := (g s)\<lparr> time_frame := w_time_start (w s),
                            frame_in_stock := w_frame_in_stock (w s) \<rparr>,
               posted := posted s @
                 (case w_frame_in_stock (w s) of
                    None \<Rightarrow> []
                  | Some b \<Rightarrow> [(w_sn (w s), b, w_time_start (w s))]) \<rparr>))
          \<lparr> wpc := WSleep \<rparr>"
      have eq: "worker_wait_loop s = ?s'"
        using empty False by (simp add: worker_wait_loop_def)
      have 1: "inv_shape ?s'"
        using pre by (simp add: inv_shape_def in_loop_def)
      have 2: "inv_worker e ?s'"
        using wp first by (simp add: inv_worker_def in_loop_def)
      have 3: "inv_posted e ?s'"
        using ps wp(2,6) by (simp add: inv_posted_def completed_def frames_Suc)
      have 4: "inv_slot ?s'"
        using pd wp(6) by (simp add: inv_slot_def delivered_def pending_def)
      from 1 2 3 4 show ?thesis by (simp only: eq simp_thms)
    qed
  qed
  then show "inv_shape (worker_wait_loop s)" "inv_worker e (worker_wait_loop s)"
    "inv_posted e (worker_wait_loop s)" "inv_slot (worker_wait_loop s)"
    by simp_all
qed

lemma worker_post_inv:
  assumes sh: "inv_shape s" and wk: "inv_worker e s" and po: "inv_posted e s" and sl: "inv_slot s"
    and pc: "wpc s = WPost"
  shows "inv_shape (worker_post s)" "inv_worker e (worker_post s)"
    "inv_posted e (worker_post s)" "inv_slot (worker_post s)"
proof -
  have pre: "length (hbmp (g s)) = 2" "length (buffer (g s)) = 2"
    using sh by (simp_all add: inv_shape_def)
  have we: "w_error (w s) = (if capture_ok e (w_sn (w s)) then 0 else AVERROR EIO)"
      "0 < w_sn (w s) \<longrightarrow> capture_ok e 0"
    using wk pc by (simp_all add: inv_worker_def)
  have nd: "wpc s \<noteq> WDone" "wpc s \<noteq> WSleep"
    using pc by auto
  have all: "inv_shape (worker_post s) \<and> inv_worker e (worker_post s) \<and>
    inv_posted e (worker_post s) \<and> inv_slot (worker_post s)"
  proof (cases "w_error (w s) \<noteq> 0 \<and> w_sn (w s) = 0")
    case True
    let ?t = "s\<lparr> g := (g s)\<lparr> error_code := w_error (w s) \<rparr> \<rparr>"
    have eq: "worker_post s = worker_exit ?t"
      using True by (simp add: worker_post_def)
    have "inv_shape (worker_exit ?t) \<and> inv_worker e (worker_exit ?t) \<and>
      inv_posted e (worker_exit ?t) \<and> inv_slot (worker_exit ?t)"
      using worker_exit_inv [of ?t e] pre wk po sl nd by simp
    then show ?thesis by (simp only: eq)
  next
    case False
    then have first: "capture_ok e 0"
      using we by (cases "w_sn (w s) = 0") (auto split: if_splits)
    show ?thesis
    proof (cases "grab_worker_quit (g s)")
      case True
      then have eq: "worker_post s = worker_exit s"
        using False by (auto simp add: worker_post_def)
      show ?thesis
        using worker_exit_inv [OF pre wk po sl nd] by (simp add: eq)
    next
      case q: False
      then have eq: "worker_post s = worker_wait_loop s"
        using False by (auto simp add: worker_post_def)
      show ?thesis
        using worker_wait_loop_inv [OF sh wk po sl _ first] pc by (simp add: eq)
    qed
  qed
  then show "inv_shape (worker_post s)" "inv_worker e (worker_post s)"
    "inv_posted e (worker_post s)" "inv_slot (worker_post s)"
    by simp_all
qed

lemma worker_step_inv:
  assumes sh: "inv_shape s" and wk: "inv_worker e s" and po: "inv_posted e s" and sl: "inv_slot s"
  shows "inv_shape (worker_step e s) \<and> inv_worker e (worker_step e s) \<and>
    inv_posted e (worker_step e s) \<and> inv_slot (worker_step e s)"
proof (cases "wpc s")
  case WInit
  then show ?thesis
    using worker_init_inv [OF assms] by (simp add: worker_step_def)
next
  case WGrab
  then show ?thesis
    using worker_grab_inv [OF assms] by (simp add: worker_step_def)
next
  case WPost
  then show ?thesis
    using worker_post_inv [OF assms] by (simp add: worker_step_def)
next
  case WWoken
  have "capture_ok e 0"
    using wk WWoken by (simp add: inv_worker_def)
  then show ?thesis
    using WWoken worker_wait_loop_inv [OF assms] by (simp add: worker_step_def)
next
  case WSleep
  then show ?thesis
    using worker_sleep_inv [OF assms] by (simp add: worker_step_def)
next
  case WExit
  have pre: "length (hbmp (g s)) = 2" "length (buffer (g s)) = 2"
    using sh by (simp_all add: inv_shape_def)
  show ?thesis
    using WExit worker_exit_inv [OF pre wk po sl] by (simp add: worker_step_def)
qed (use assms in \<open>simp_all add: worker_step_def\<close>)

lemma inv_step: "inv e s \<Longrightarrow> inv e (step e ev s)"
proof -
  assume i: "inv e s"
  then have a: "inv_shape s" "inv_worker e s" "inv_posted e s" "inv_slot s"
    by (simp_all add: inv_def)
  show ?thesis
  proof (cases "wpc s = WTrap")
    case True
    with i show ?thesis by (simp add: step_def)
  next
    case False
    show ?thesis
    proof (cases ev)
      case Start
      with False show ?thesis
        using start_call_inv [OF a] by (simp add: step_def inv_def)
    next
      case Work
      with False show ?thesis
        using worker_step_inv [OF a] by (simp add: step_def inv_def)
    next
      case (Read nb)
      with False show ?thesis
        using read_call_inv [OF a] by (simp add: step_def inv_def)
    next
      case Resume
      with False show ?thesis
        using caller_resume_inv [OF a] by (simp add: step_def inv_def)
    next
      case Close
      with False show ?thesis
        using read_close_inv [OF a] by (simp add: step_def inv_def)
    qed
  qed
qed

lemma run_snoc: "run e (evs @ [ev]) s = step e ev (run e evs s)"
  by (induction evs arbitrary: s) simp_all

lemma inv_run: "inv e s \<Longrightarrow> inv e (run e evs s)"
  by (induction evs arbitrary: s) (simp_all add: inv_step)

lemma inv_reach: "inv e (run e evs (sys0 opts))"
  by (rule inv_run [OF inv_init])

lemma map_fst_frames: "map fst (frames e k) = filter (capture_ok e) [0..<k]"
  by (simp add: frames_def comp_def)

lemma distinct_frames: "distinct (map fst (frames e k))"
  by (simp add: map_fst_frames)

lemma frames_mem: "(sn, b, t) \<in> set (frames e k) \<Longrightarrow> t = clock e (3 * sn) \<and> b = sn mod 2 \<and> sn < k \<and> capture_ok e sn"
  by (auto simp: frames_def)

text \<open>The steps that store a frame, and the steps that deliver one.\<close>

lemma posted_read_return [simp]: "posted (read_return r s) = posted s"
  by (cases r) (simp add: read_return_def)

lemma posted_copy_frame_call [simp]: "posted (copy_frame_call e s) = posted s"
  by (simp add: copy_frame_call_def)

lemma posted_worker_init [simp]: "posted (worker_init e s) = posted s"
  by (simp add: worker_init_def split: outcome.splits prod.splits)

lemma posted_wait_loop:
  "posted (worker_wait_loop s) = posted s \<or>
   (frame_in_stock (g s) = None \<and> (\<exists>x. posted (worker_wait_loop s) = posted s @ [x]))"
  by (simp add: worker_wait_loop_def split: option.splits)

lemma posted_worker_step:
  "posted (worker_step e s) = posted s \<or>
   (frame_in_stock (g s) = None \<and> (\<exists>x. posted (worker_step e s) = posted s @ [x]))"
proof (cases "wpc s")
  case WPost
  then show ?thesis
    using posted_wait_loop [of s] by (simp add: worker_step_def worker_post_def)
next
  case WWoken
  then show ?thesis
    using posted_wait_loop [of s] by (simp add: worker_step_def)
qed (simp_all add: worker_step_def worker_grab_def worker_sleep_def Let_def split: prod.splits)

lemma posted_step:
  "posted (step e ev s) = posted s \<or>
   (frame_in_stock (g s) = None \<and> (\<exists>x. posted (step e ev s) = posted s @ [x]))"
proof (cases ev)
  case Work
  then show ?thesis
    using posted_worker_step [of e s] by (simp add: step_def)
qed (simp_all add: step_def start_call_def Let_def read_call_def caller_resume_def start_lock_def
      start_return_def read_woken_def split: caller_pc.splits)

lemma delivered_copy_frame_call:
  "delivered (copy_frame_call e s) = delivered s \<or>
   (frame_in_stock (g (copy_frame_call e s)) = None \<and>
    (\<exists>p. delivered (copy_frame_call e s) = delivered s @ [p]))"
  using copy_frame_call_cases [of e s]
  by (auto simp: delivered_def)

lemma delivered_read_none [simp]: "delivered (read_return (r, None, c) s) = delivered s"
  by (simp add: delivered_def)

lemma delivered_step:
  "delivered (step e ev s) = delivered s \<or>
   (frame_in_stock (g (step e ev s)) = None \<and> (\<exists>p. delivered (step e ev s) = delivered s @ [p]))"
proof (cases "wpc s = WTrap")
  case True
  then show ?thesis by (simp add: step_def)
next
  case False
  show ?thesis
  proof (cases ev)
    case Start
    with False show ?thesis
      by (simp add: step_def start_call_def Let_def delivered_def)
  next
    case Work
    have "outputs (worker_step e s) = outputs s"
      by (cases "wpc s")
         (simp_all add: worker_step_def worker_init_def worker_grab_def worker_post_def
            worker_wait_loop_def worker_sleep_def Let_def split: outcome.splits prod.splits)
    with Work False show ?thesis
      by (simp add: step_def delivered_def)
  next
    case (Read nb)
    with False show ?thesis
      using delivered_copy_frame_call [of e s]
      by (simp add: step_def read_call_def) (simp add: delivered_def)
  next
    case Resume
    with False show ?thesis
      using delivered_copy_frame_call [of e s]
      by (cases "mpc s")
         (simp_all add: step_def caller_resume_def read_woken_def start_lock_def start_return_def,
          simp_all add: delivered_def)
  next
    case Close
    with False show ?thesis
      by (simp add: step_def delivered_def)
  qed
qed

lemma slot_facts:
  assumes "inv e s"
  shows "length (map frame_of_post (posted s)) \<le> length (map frame_of_packet (delivered s)) + 1"
    and "map frame_of_packet (delivered s) =
         take (length (map frame_of_packet (delivered s))) (map frame_of_post (posted s))"
    and "\<forall>b. frame_in_stock (g s) = Some b \<longrightarrow>
         map frame_of_post (posted s) = map frame_of_packet (delivered s) @ [(Some b, time_frame (g s))]"
    and "frame_in_stock (g s) = None \<and> wpc s \<noteq> WDone \<longrightarrow>
         map frame_of_post (posted s) = map frame_of_packet (delivered s)"
proof -
  define P where "P = map frame_of_post (posted s)"
  define D where "D = map frame_of_packet (delivered s)"
  have sl: "P = D @ pending (g s) \<or>
      (wpc s = WDone \<and> frame_in_stock (g s) = None \<and> (\<exists>x. P = D @ [x]))"
    using assms by (simp add: inv_def inv_slot_def P_def D_def)
  have pl: "length (pending (g s)) \<le> 1"
    by (simp add: pending_def split: option.splits)
  have 1: "length P \<le> length D + 1"
    using sl pl by auto
  have 2: "D = take (length D) P"
    using sl by auto
  have 3: "\<forall>b. frame_in_stock (g s) = Some b \<longrightarrow> P = D @ [(Some b, time_frame (g s))]"
    using sl by (auto simp: pending_Some)
  have 4: "frame_in_stock (g s) = None \<and> wpc s \<noteq> WDone \<longrightarrow> P = D"
    using sl by (auto simp: pending_None)
  from 1 show "length (map frame_of_post (posted s)) \<le> length (map frame_of_packet (delivered s)) + 1"
    unfolding P_def D_def .
  from 2 show "map frame_of_packet (delivered s) =
         take (length (map frame_of_packet (delivered s))) (map frame_of_post (posted s))"
    unfolding P_def D_def .
  from 3 show "\<forall>b. frame_in_stock (g s) = Some b \<longrightarrow>
         map frame_of_post (posted s) = map frame_of_packet (delivered s) @ [(Some b, time_frame (g s))]"
    unfolding P_def D_def .
  from 4 show "frame_in_stock (g s) = None \<and> wpc s \<noteq> WDone \<longrightarrow>
         map frame_of_post (posted s) = map frame_of_packet (delivered s)"
    unfolding P_def D_def .
qed

subsection \<open>The geometry checks of the initialisation\<close>

text \<open>Where the two sums fit in 32 bits the code's rectangle is the exact one.\<close>

lemma requested_is_exact:
  assumes "in_int32 (rright (exact_clip_rect c v))" "in_int32 (rbottom (exact_clip_rect c v))"
  shows "requested_clip_rect c v = exact_clip_rect c v"
  using assms
  by (cases "width c = 0 \<or> height c = 0")
     (simp_all add: requested_clip_rect_def exact_clip_rect_def int32_id)

text \<open>Where the sums and the differences of the edges fit in 32 bits, the geometry
  errors are taken exactly when the
  exact rectangle extends outside the area of the target, or its width or its height
  is not positive, or the bit depth is not a multiple of 8. The function then
  returns \<^verbatim>\<open>AVERROR(EIO)\<close> and has made no allocation call; otherwise it goes on to
  \<^verbatim>\<open>CreateCompatibleDC\<close>.\<close>

lemma dc_init_geometry_in_range:
  assumes target: "if is_title (url e) then FindWindow e (drop 6 (url e)) else url e = ''desktop''"
      and dc: "GetDC_ok e"
      and res: "is_title (url e) \<or> (\<not> div_traps (scaled_right e) (HORZRES e) \<and>
                                   \<not> div_traps (scaled_bottom e) (VERTRES e))"
      and fits: "in_int32 (rright (exact_clip_rect c (virtual_rect_of e (is_title (url e)))))"
                "in_int32 (rbottom (exact_clip_rect c (virtual_rect_of e (is_title (url e)))))"
                "in_int32 (rright (exact_clip_rect c (virtual_rect_of e (is_title (url e)))) -
                           rleft (exact_clip_rect c (virtual_rect_of e (is_title (url e)))))"
                "in_int32 (rbottom (exact_clip_rect c (virtual_rect_of e (is_title (url e)))) -
                           rtop (exact_clip_rect c (virtual_rect_of e (is_title (url e)))))"
  shows "\<exists>ret x calls c1.
           gdigrab_dc_init e c = Ret (ret, x, calls, c1) \<and>
           (let v = virtual_rect_of e (is_title (url e));
                clip = exact_clip_rect c v;
                bad = (extends_outside clip v \<or> rright clip - rleft clip \<le> 0 \<or>
                       rbottom clip - rtop clip \<le> 0 \<or> \<not> 8 dvd BITSPIXEL e)
            in ((x = Outside_area \<or> x = Invalid_properties) = bad)
             \<and> (if bad
                 then ret = AVERROR EIO \<and> error_code c1 = AVERROR EIO \<and> calls = [] \<and>
                      hbmp c1 = map (\<lambda>h. False) (hbmp c) \<and> \<not> dest_hdc c1
                 else calls \<noteq> [] \<and> hd calls = Call_CreateCompatibleDC \<and>
                      (CreateCompatibleDC_ok e \<longrightarrow> Call_CreateDIBSection 0 \<in> set calls)))"
proof -
  let ?c0 = "gdigrab_dc_destroy c"
  let ?h = "is_title (url e)"
  let ?c2 = "?c0\<lparr> hwnd := ?h,
                  show_region := (if ?h \<and> show_region ?c0 \<noteq> 0 then 0 else show_region ?c0),
                  source_hdc := True \<rparr>"
  let ?v = "virtual_rect_of e ?h"
  let ?clip = "exact_clip_rect c ?v"
  let ?bad = "extends_outside ?clip ?v \<or> invalid_properties ?clip (BITSPIXEL e)"
  have ex: "requested_clip_rect c ?v = ?clip"
    by (rule requested_is_exact [OF fits(1,2)])
  have clip: "requested_clip_rect ?c0 ?v = ?clip"
    using requested_clip_rect_cong [of ?c0 c ?v] ex by simp
  have body: "dc_body e ?c0 =
      (if extends_outside ?clip ?v then Ret (Outside_area, [], ?c2)
       else if invalid_properties ?clip (BITSPIXEL e) then Ret (Invalid_properties, [], ?c2)
       else Ret (dc_allocate e ?clip (BITSPIXEL e) ?c2))"
    using dc_body_resolved [OF target dc res, of ?c0] clip
    by (simp add: Let_def)
  have bad_eq: "?bad = (extends_outside ?clip ?v \<or> rright ?clip - rleft ?clip \<le> 0 \<or>
                       rbottom ?clip - rtop ?clip \<le> 0 \<or> \<not> 8 dvd BITSPIXEL e)"
    by (simp add: invalid_properties_def rect_width_def rect_height_def smod8
        int32_id [OF fits(3)] int32_id [OF fits(4)])
  show ?thesis
  proof (cases ?bad)
    case True
    then obtain x where x: "dc_body e ?c0 = Ret (x, [], ?c2)"
        "x = Outside_area \<or> x = Invalid_properties"
      using body by (cases "extends_outside ?clip ?v") simp_all
    have "gdigrab_dc_init e c =
            Ret (AVERROR EIO, x, [], (gdigrab_dc_destroy ?c2)\<lparr> error_code := AVERROR EIO \<rparr>)"
      using x by (auto simp: gdigrab_dc_init_def Let_def)
    then show ?thesis
      using True x(2) bad_eq
      by (simp add: Let_def)
  next
    case False
    obtain x calls c3 where al: "dc_allocate e ?clip (BITSPIXEL e) ?c2 = (x, calls, c3)"
      by (cases "dc_allocate e ?clip (BITSPIXEL e) ?c2") auto
    have x: "x \<noteq> Outside_area" "x \<noteq> Invalid_properties"
      using dc_allocate_exit [of e ?clip "BITSPIXEL e" ?c2] al by simp_all
    have calls: "calls \<noteq> []" "hd calls = Call_CreateCompatibleDC"
        "CreateCompatibleDC_ok e \<longrightarrow> Call_CreateDIBSection 0 \<in> set calls"
      using dc_allocate_calls [of e ?clip "BITSPIXEL e" ?c2] al by simp_all
    have "dc_body e ?c0 = Ret (x, calls, c3)"
      using body False al by simp
    then have "\<exists>ret c1. gdigrab_dc_init e c = Ret (ret, x, calls, c1)"
      by (simp add: gdigrab_dc_init_def Let_def)
    then show ?thesis
      using False x calls bad_eq
      by (auto simp add: Let_def)
  qed
qed

text \<open>An area of 4000x100 pixels on the 1920x1080 desktop is in range and rejected.\<close>

lemma dc_init_rejects_wide_area:
  "extends_outside
     (exact_clip_rect (gdigrab0 wide_options) (virtual_rect_of desktop_dc False))
     (virtual_rect_of desktop_dc False)
   \<and> (case gdigrab_dc_init desktop_dc (gdigrab0 wide_options) of
         Trap \<Rightarrow> False
       | Ret (ret, x, calls, c1) \<Rightarrow>
           ret = AVERROR EIO \<and> x = Outside_area \<and> calls = [] \<and> hbmp c1 = [False, False] \<and>
           error_code c1 = AVERROR EIO)"
  by code_simp

text \<open>
  Claim C9 fails on the code. The options ask for one pixel at \<open>offset_x = 2147483647\<close>
  on the 1920x1080 desktop: the requested rectangle has its left edge at 2147483647
  and its right edge at 2147483648, far outside the desktop. The code computes the
  right edge as the 32-bit sum \<^verbatim>\<open>gdigrab->width + gdigrab->offset_x\<close>, which is
  \<open>- 2147483648\<close>. The test "extends outside window area" compares only the left edge
  with the left bound and the right edge with the right bound, so it passes; the
  width \<^verbatim>\<open>clip_rect.right - clip_rect.left\<close> is again a 32-bit difference, 1, so the
  test "Invalid properties" passes too. \<^verbatim>\<open>gdigrab_dc_init\<close> returns 0, having created the
  destination context and both DIB sections, with this rectangle as \<^verbatim>\<open>clip_rect\<close>.
\<close>

theorem dc_init_accepts_wrapped_area:
  "(let c = gdigrab0 edge_options; v = virtual_rect_of desktop_dc False in
      v = \<lparr> rleft = 0, rtop = 0, rright = 1920, rbottom = 1080 \<rparr>
    \<and> exact_clip_rect c v = \<lparr> rleft = 2147483647, rtop = 0, rright = 2147483648, rbottom = 1 \<rparr>
    \<and> extends_outside (exact_clip_rect c v) v
    \<and> requested_clip_rect c v =
        \<lparr> rleft = 2147483647, rtop = 0, rright = - 2147483648, rbottom = 1 \<rparr>
    \<and> extends_outside (requested_clip_rect c v) v = False
    \<and> rect_width (requested_clip_rect c v) = 1
    \<and> rect_height (requested_clip_rect c v) = 1
    \<and> invalid_properties (requested_clip_rect c v) (BITSPIXEL desktop_dc) = False
    \<and> (case gdigrab_dc_init desktop_dc c of
          Trap \<Rightarrow> False
        | Ret (ret, x, calls, c1) \<Rightarrow>
            ret = 0 \<and> x = Init_ok \<and> error_code c1 = 0 \<and>
            calls = [Call_CreateCompatibleDC, Call_CreateDIBSection 0, Call_CreateDIBSection 1] \<and>
            dest_hdc c1 \<and> hbmp c1 = [True, True] \<and>
            clip_rect c1 = \<lparr> rleft = 2147483647, rtop = 0, rright = - 2147483648, rbottom = 1 \<rparr> \<and>
            biWidth (bmi c1) = 1))"
  by code_simp

subsection \<open>The size of a packet\<close>

text \<open>
  Claim C8, amended. After a successful initialisation the header size is the size of
  the file header plus the size of the info header plus, only when the bit depth is at
  most 8, a palette of \<open>2 ^ bpp\<close> entries; the frame size is the product
  \<^verbatim>\<open>bmWidthBytes * bmHeight * bmPlanes\<close> that \<^verbatim>\<open>GetObject\<close> reports for the first DIB
  section, reduced to 32 bits; \<^verbatim>\<open>gdigrab_copy_frame\<close> returns, and gives the packet, the
  sum of the two, reduced to 32 bits. At bit depth 24 there is no palette, and if the
  product and its sum with the two headers fit in 32 bits, the packet size is exactly
  the two headers plus \<^verbatim>\<open>bmWidthBytes * bmHeight * bmPlanes\<close>. This is \<open>W * H * 3\<close> for the
  width \<open>W\<close> and height \<open>H\<close> of the clip rectangle when the reported row takes exactly
  \<open>3 * W\<close> bytes, in \<open>H\<close> rows of one plane.
\<close>

theorem packet_size_of_frame:
  assumes init: "gdigrab_dc_init e c = Ret (0, x, calls, c1)"
  shows "let bpp = BITSPIXEL e; b = GetObject e;
             W = rect_width (clip_rect c1);
             H = rect_height (clip_rect c1);
             F = bmWidthBytes b * bmHeight b * bmPlanes b;
             r = gdigrab_copy_frame True (c1\<lparr> time_frame := t, frame_in_stock := Some i \<rparr>)
         in biBitCount (bmi c1) = uint16 bpp \<and> biWidth (bmi c1) = W \<and> biHeight (bmi c1) = int32 (- H)
          \<and> header_size c1 = sizeof_BITMAPFILEHEADER + sizeof_BITMAPINFOHEADER +
                             (if bpp \<le> 8 then 2 ^ nat bpp else 0) * sizeof_RGBQUAD
          \<and> frame_size c1 = int32 F
          \<and> fst r = int32 (header_size c1 + frame_size c1)
          \<and> (\<exists>p. fst (snd r) = Some p \<and> pkt_size p = fst r \<and>
                  bfOffBits p = uint32 (header_size c1) \<and>
                  palette_entries p = (if uint16 bpp \<le> 8 then 2 ^ nat (uint16 bpp) else 0) \<and>
                  (bpp = 24 \<longrightarrow> palette_entries p = 0 \<and> bfOffBits p =
                     sizeof_BITMAPFILEHEADER + sizeof_BITMAPINFOHEADER))
          \<and> (bpp = 24 \<and> in_int32 F \<and>
              in_int32 (sizeof_BITMAPFILEHEADER + sizeof_BITMAPINFOHEADER + F) \<longrightarrow>
                fst r = sizeof_BITMAPFILEHEADER + sizeof_BITMAPINFOHEADER +
                        bmWidthBytes b * bmHeight b * bmPlanes b)
          \<and> (bpp = 24 \<and> bmWidthBytes b = W * 3 \<and> bmHeight b = H \<and> bmPlanes b = 1 \<and>
              in_int32 (W * H * 3) \<and>
              in_int32 (sizeof_BITMAPFILEHEADER + sizeof_BITMAPINFOHEADER + W * H * 3) \<longrightarrow>
                fst r = sizeof_BITMAPFILEHEADER + sizeof_BITMAPINFOHEADER + W * H * 3)"
proof -
  let ?b = "GetObject e"
  let ?F = "bmWidthBytes ?b * bmHeight ?b * bmPlanes ?b"
  let ?hs = "sizeof_BITMAPFILEHEADER + sizeof_BITMAPINFOHEADER"
  let ?r = "gdigrab_copy_frame True (c1\<lparr> time_frame := t, frame_in_stock := Some i \<rparr>)"
  note ok = dc_init_ok(2,3,4) [OF init]
  have fs: "frame_size c1 = int32 ?F"
    using ok(1) by (simp add: int32_mult_left)
  have hd24: "BITSPIXEL e = 24 \<Longrightarrow> header_size c1 = ?hs"
    using ok(2) by simp
  have ret: "fst ?r = int32 (header_size c1 + frame_size c1)"
    by (simp add: gdigrab_copy_frame_def Let_def)
  have pk: "\<exists>p. fst (snd ?r) = Some p \<and> pkt_size p = fst ?r \<and>
                  bfOffBits p = uint32 (header_size c1) \<and>
                  palette_entries p = (if uint16 (BITSPIXEL e) \<le> 8 then 2 ^ nat (uint16 (BITSPIXEL e)) else 0) \<and>
                  (BITSPIXEL e = 24 \<longrightarrow> palette_entries p = 0 \<and> bfOffBits p = ?hs)"
    using ok(3) hd24
    by (simp add: gdigrab_copy_frame_def Let_def uint16_def uint32_def
        sizeof_BITMAPFILEHEADER_def sizeof_BITMAPINFOHEADER_def)
  have plain: "fst ?r = ?hs + ?F"
    if "BITSPIXEL e = 24" "in_int32 ?F" "in_int32 (?hs + ?F)"
    using that ret fs hd24 by (simp add: int32_id)
  have whole: "fst ?r = ?hs + rect_width (clip_rect c1) * rect_height (clip_rect c1) * 3"
    if b: "BITSPIXEL e = 24" "bmWidthBytes ?b = rect_width (clip_rect c1) * 3"
        "bmHeight ?b = rect_height (clip_rect c1)" "bmPlanes ?b = 1"
      and f: "in_int32 (rect_width (clip_rect c1) * rect_height (clip_rect c1) * 3)"
        "in_int32 (?hs + rect_width (clip_rect c1) * rect_height (clip_rect c1) * 3)"
  proof -
    have F: "?F = rect_width (clip_rect c1) * rect_height (clip_rect c1) * 3"
      using b by (simp add: algebra_simps)
    show ?thesis
      using plain [OF b(1)] f unfolding F by simp
  qed
  show ?thesis
    unfolding Let_def
    using ok(3) ok(2) fs ret pk plain whole by simp
qed

theorem packet_size_of_frame_witness:
  "gdigrab_dc_init laptop_dc (gdigrab0 default_options) =
     Ret (0, Init_ok, [Call_CreateCompatibleDC, Call_CreateDIBSection 0, Call_CreateDIBSection 1],
          laptop_ctx)
   \<and> BITSPIXEL laptop_dc = 24
   \<and> in_int32 (4100 * 768 * 1)
   \<and> in_int32 (sizeof_BITMAPFILEHEADER + sizeof_BITMAPINFOHEADER + 4100 * 768 * 1)
   \<and> fst (gdigrab_copy_frame True (laptop_ctx\<lparr> time_frame := 1000, frame_in_stock := Some 0 \<rparr>))
       = sizeof_BITMAPFILEHEADER + sizeof_BITMAPINFOHEADER + 4100 * 768 * 1"
proof -
  have h: "gdigrab_dc_init laptop_dc (gdigrab0 default_options) =
     Ret (0, Init_ok, [Call_CreateCompatibleDC, Call_CreateDIBSection 0, Call_CreateDIBSection 1],
          laptop_ctx)"
    by code_simp
  have b: "BITSPIXEL laptop_dc = 24" "GetObject laptop_dc = \<lparr> bmWidthBytes = 4100, bmHeight = 768, bmPlanes = 1 \<rparr>"
    by (simp_all add: laptop_dc_def desktop_dc_def)
  have f: "in_int32 (4100 * 768 * 1)"
      "in_int32 (sizeof_BITMAPFILEHEADER + sizeof_BITMAPINFOHEADER + 4100 * 768 * 1)"
    by (simp_all add: in_int32_def sizeof_BITMAPFILEHEADER_def sizeof_BITMAPINFOHEADER_def)
  note T = packet_size_of_frame [OF h, where t = 1000 and i = 0, unfolded Let_def]
  have q: "BITSPIXEL laptop_dc = 24 \<and>
      in_int32 (bmWidthBytes (GetObject laptop_dc) * bmHeight (GetObject laptop_dc) *
                bmPlanes (GetObject laptop_dc)) \<and>
      in_int32 (sizeof_BITMAPFILEHEADER + sizeof_BITMAPINFOHEADER +
                bmWidthBytes (GetObject laptop_dc) * bmHeight (GetObject laptop_dc) *
                bmPlanes (GetObject laptop_dc)) \<longrightarrow>
      fst (gdigrab_copy_frame True (laptop_ctx\<lparr> time_frame := 1000, frame_in_stock := Some 0 \<rparr>))
        = sizeof_BITMAPFILEHEADER + sizeof_BITMAPINFOHEADER +
          bmWidthBytes (GetObject laptop_dc) * bmHeight (GetObject laptop_dc) *
          bmPlanes (GetObject laptop_dc)"
    by (rule T [THEN conjunct2, THEN conjunct2, THEN conjunct2, THEN conjunct2, THEN conjunct2,
          THEN conjunct2, THEN conjunct2, THEN conjunct1])
  have r: "fst (gdigrab_copy_frame True (laptop_ctx\<lparr> time_frame := 1000, frame_in_stock := Some 0 \<rparr>))
       = sizeof_BITMAPFILEHEADER + sizeof_BITMAPINFOHEADER + 4100 * 768 * 1"
    using q b f by simp
  show ?thesis
    using h b(1) f r by (intro conjI)
qed

text \<open>
  Claim C8 as stated fails: on the 1366x768 desktop at 24 bits the packet of the
  first frame has 3148854 bytes, not the two headers plus 1366 * 768 * 3 bytes.
\<close>

theorem packet_size_counterexample:
  "BITSPIXEL (dc laptop_env) = 24
   \<and> clip_rect (g (run laptop_env first_frame (sys0 default_options)))
       = \<lparr> rleft = 0, rtop = 0, rright = 1366, rbottom = 768 \<rparr>
   \<and> map fst (outputs (run laptop_env first_frame (sys0 default_options))) = [3148854]
   \<and> map pkt_size (delivered (run laptop_env first_frame (sys0 default_options))) = [3148854]
   \<and> sizeof_BITMAPFILEHEADER + sizeof_BITMAPINFOHEADER + 1366 * 768 * 3 = 3147318"
  by code_simp

subsection \<open>The pacing controller\<close>

text \<open>
  Claim C2. In one pass through the pacing code with period \<open>T\<close>, iteration start
  \<open>time_start\<close> and balance \<open>b\<close>: the raw sleep is \<open>T\<close> minus the time elapsed since
  \<open>time_start\<close>; the requested sleep is the raw sleep plus \<open>b\<close>; \<^verbatim>\<open>av_usleep\<close> is
  called with the requested sleep only if it is positive; the clock is read again
  in either case; the new balance is \<open>b + (raw - actual)\<close>, raised to \<open>- T\<close> if it is
  below.
\<close>

theorem pacing_iteration:
  assumes "wpc s = WSleep"
  shows "let T = w_time_base (w s); b = w_sleep_balance (w s);
             time_sleep_start = clock e (ticks s); time_end = clock e (ticks s + 1);
             raw = T - (time_sleep_start - w_time_start (w s));
             requested = raw + b;
             actual = time_end - time_sleep_start;
             s' = step e Work s
         in usleeps s' = usleeps s @ (if requested \<le> 0 then [] else [requested])
          \<and> w_time_end (w s') = time_end
          \<and> w_sleep_balance (w s') = max (- T) (b + (raw - actual))
          \<and> - T \<le> w_sleep_balance (w s')
          \<and> wpc s' = WGrab \<and> w_sn (w s') = w_sn (w s) + 1"
  using assms
  by (simp add: step_def worker_step_def worker_sleep_def pacing_def Let_def max_def)

theorem pacing_iteration_witness:
  "wpc stalled_sys = WSleep
   \<and> usleeps (step stalled_env Work stalled_sys) = []
   \<and> w_time_end (w (step stalled_env Work stalled_sys)) = 166840
   \<and> w_sleep_balance (w (step stalled_env Work stalled_sys)) = - 33366"
proof -
  have h: "wpc stalled_sys = WSleep"
    by (simp add: stalled_sys_def)
  show ?thesis
    using h pacing_iteration [OF h, of stalled_env]
    by (simp add: stalled_sys_def stalled_env_def sys0_def Let_def)
qed

subsection \<open>Pulling after a fatal error\<close>

text \<open>
  Claim C10. A call of \<^verbatim>\<open>gdigrab_read_packet\<close> made while \<^verbatim>\<open>error_code\<close> is non-zero
  returns \<^verbatim>\<open>AVERROR(EIO)\<close> in the same step (it does not wait), fills no packet, and
  leaves the whole context unchanged, \<^verbatim>\<open>frame_in_stock\<close> included: a frame that is
  still in stock stays there.
\<close>

theorem read_packet_after_fatal_error:
  assumes "error_code (g s) \<noteq> 0" and "mpc s = MIdle" and "wpc s \<noteq> WTrap"
  shows "let s' = step e (Read nonblock) s in
           outputs s' = outputs s @ [(AVERROR EIO, None)]
         \<and> mpc s' = MIdle
         \<and> g s' = g s
         \<and> frame_in_stock (g s') = frame_in_stock (g s)
         \<and> delivered s' = delivered s
         \<and> allocs s' = allocs s
         \<and> posted s' = posted s
         \<and> w s' = w s"
  using assms
  by (simp add: step_def read_call_def read_return_def broadcast_def delivered_def Let_def)

theorem read_packet_after_fatal_error_witness:
  "error_code (g failed_with_frame) \<noteq> 0
   \<and> mpc failed_with_frame = MIdle
   \<and> outputs (step (failing_at [0]) (Read False) failed_with_frame) = [(AVERROR EIO, None)]
   \<and> mpc (step (failing_at [0]) (Read False) failed_with_frame) = MIdle
   \<and> frame_in_stock (g (step (failing_at [0]) (Read False) failed_with_frame)) = Some 0
   \<and> delivered (step (failing_at [0]) (Read False) failed_with_frame) = []"
proof -
  have h: "error_code (g failed_with_frame) \<noteq> 0" "mpc failed_with_frame = MIdle"
    "wpc failed_with_frame \<noteq> WTrap"
    by (simp_all add: failed_with_frame_def sys0_def AVERROR_def EIO_def)
  show ?thesis
    using h read_packet_after_fatal_error [OF h, of "failing_at [0]" False]
    by (simp add: failed_with_frame_def sys0_def delivered_def Let_def)
qed

subsection \<open>Closing\<close>

text \<open>
  Claim C5 fails on the code. With the first frame in stock and never pulled, the
  worker waits in the loop "Wait for a frame being comsumed" of its second
  iteration. \<^verbatim>\<open>gdigrab_read_close\<close> sets the flag and wakes the worker, but the loop
  tests only \<^verbatim>\<open>frame_in_stock\<close>: the worker waits again. However many steps it is
  given, it stays in the wait, the bitmaps and device contexts stay allocated, and
  nothing more is stored.
\<close>

theorem blocked_producer_ignores_quit:
  "\<forall>n. (let s = run (failing_at []) (stock_full @ Close # replicate (Suc n) Work)
                   (sys0 default_options)
        in close_rets s = [0] \<and> grab_worker_quit (g s) \<and> wpc s = WWait
         \<and> frame_in_stock (g s) = Some 0 \<and> map fst (posted s) = [0]
         \<and> grabs s = [(0, 1000), (1, 34366)]
         \<and> hbmp (g s) = [True, True] \<and> source_hdc (g s) \<and> dest_hdc (g s))"
proof
  fix n
  let ?s = "run (failing_at []) (stock_full @ [Close, Work]) (sys0 default_options)"
  have w: "wpc ?s = WWait"
    by code_simp
  have eq: "run (failing_at []) (stock_full @ Close # replicate (Suc n) Work)
              (sys0 default_options) = ?s"
    using run_waiting [OF w, of "failing_at []" n]
    by (simp add: run_append)
  have "close_rets ?s = [0] \<and> grab_worker_quit (g ?s) \<and> wpc ?s = WWait
         \<and> frame_in_stock (g ?s) = Some 0 \<and> map fst (posted ?s) = [0]
         \<and> grabs ?s = [(0, 1000), (1, 34366)]
         \<and> hbmp (g ?s) = [True, True] \<and> source_hdc (g ?s) \<and> dest_hdc (g ?s)"
    by code_simp
  then show "let s = run (failing_at []) (stock_full @ Close # replicate (Suc n) Work)
                       (sys0 default_options)
        in close_rets s = [0] \<and> grab_worker_quit (g s) \<and> wpc s = WWait
         \<and> frame_in_stock (g s) = Some 0 \<and> map fst (posted s) = [0]
         \<and> grabs s = [(0, 1000), (1, 34366)]
         \<and> hbmp (g s) = [True, True] \<and> source_hdc (g s) \<and> dest_hdc (g s)"
    unfolding eq Let_def .
qed

text \<open>
  Claim C6, amended. \<^verbatim>\<open>gdigrab_read_close\<close> is a signal, not a join: it sets
  \<^verbatim>\<open>grab_worker_quit\<close>, wakes the waiting threads and returns 0 in the same step,
  changing nothing else in the context and releasing nothing. A second call changes
  neither the context nor the program points. The release is the worker's: from
  the loop test, from the lock after a grab, from the pacing code or from the label
  \<^verbatim>\<open>end\<close>, the worker has returned after at most three of its own steps, and
  \<^verbatim>\<open>gdigrab_dc_destroy\<close> has then released the window handle, the device contexts,
  the bitmaps, the frame in stock and the region window.
\<close>

theorem read_close_is_a_signal:
  "let s1 = gdigrab_read_close s; s2 = gdigrab_read_close s1; s3 = run e [Work, Work, Work] s1 in
     g s1 = (g s)\<lparr> grab_worker_quit := True \<rparr>
   \<and> close_rets s1 = close_rets s @ [0]
   \<and> wpc s1 = (if wpc s = WWait then WWoken else wpc s)
   \<and> g s2 = g s1 \<and> wpc s2 = wpc s1 \<and> mpc s2 = mpc s1
   \<and> (wpc s = WGrab \<or> wpc s = WPost \<or> wpc s = WSleep \<or> wpc s = WExit \<longrightarrow>
        wpc s3 = WDone \<and> released (g s3) \<and> close_rets s3 = close_rets s1)"
proof -
  let ?s1 = "gdigrab_read_close s"
  have b: "g (gdigrab_read_close ?s1) = g ?s1" "wpc (gdigrab_read_close ?s1) = wpc ?s1"
      "mpc (gdigrab_read_close ?s1) = mpc ?s1"
    by (simp_all split: caller_pc.splits)
  have c: "wpc (run e [Work, Work, Work] ?s1) = WDone \<and>
           released (g (run e [Work, Work, Work] ?s1)) \<and>
           close_rets (run e [Work, Work, Work] ?s1) = close_rets ?s1"
    if pc: "wpc s = WGrab \<or> wpc s = WPost \<or> wpc s = WSleep \<or> wpc s = WExit"
  proof (rule quit_exit_in_three)
    show "grab_worker_quit (g ?s1)" by simp
    from pc show "wpc ?s1 = WGrab \<or> wpc ?s1 = WPost \<or> wpc ?s1 = WSleep \<or> wpc ?s1 = WExit"
      by auto
  qed
  show ?thesis
    unfolding Let_def
    using b c by (intro conjI impI) simp_all
qed

theorem read_close_is_a_signal_witness:
  "wpc (run (failing_at []) first_posted (sys0 default_options)) = WSleep
   \<and> hbmp (g (gdigrab_read_close (run (failing_at []) first_posted (sys0 default_options))))
       = [True, True]
   \<and> wpc (run (failing_at []) [Work, Work, Work]
            (gdigrab_read_close (run (failing_at []) first_posted (sys0 default_options)))) = WDone
   \<and> released (g (run (failing_at []) [Work, Work, Work]
            (gdigrab_read_close (run (failing_at []) first_posted (sys0 default_options)))))"
proof -
  have h: "wpc (run (failing_at []) first_posted (sys0 default_options)) = WSleep"
    by code_simp
  have a: "hbmp (g (gdigrab_read_close (run (failing_at []) first_posted (sys0 default_options))))
       = [True, True]"
    by code_simp
  show ?thesis
    using h a read_close_is_a_signal [of "run (failing_at []) first_posted (sys0 default_options)"
        "failing_at []"]
    by (simp add: Let_def)
qed

text \<open>
  Claim C6 as stated fails: \<^verbatim>\<open>gdigrab_read_close\<close> has returned while the worker is
  still at its pacing code and both bitmaps, both buffers and both device contexts
  are allocated; the worker releases them three steps later.
\<close>

theorem close_returns_before_exit:
  "(let s = run (failing_at []) (first_posted @ [Close]) (sys0 default_options)
    in close_rets s = [0] \<and> wpc s = WSleep \<and> hbmp (g s) = [True, True] \<and>
       buffer (g s) = [Some 0, Some 1] \<and> source_hdc (g s) \<and> dest_hdc (g s) \<and>
       frame_in_stock (g s) = Some 0)
   \<and> (let s = run (failing_at []) (first_posted @ [Close, Work, Work, Work]) (sys0 default_options)
    in close_rets s = [0] \<and> wpc s = WDone \<and> hbmp (g s) = [False, False])"
  by code_simp

subsection \<open>The slot\<close>

text \<open>
  Claim C1. In every reachable state the frames stored by the worker are the frames
  delivered, in the same order, followed by at most one more: the frame in stock.
  No iteration stores twice. A step stores a frame only from a state whose slot is
  empty (the worker waits while \<^verbatim>\<open>frame_in_stock\<close> is set), and a step that delivers
  a packet leaves the slot empty (\<^verbatim>\<open>gdigrab_copy_frame\<close> clears \<^verbatim>\<open>frame_in_stock\<close>).
\<close>

theorem slot_holds_at_most_one:
  "let s = run e evs (sys0 opts);
       P = map frame_of_post (posted s);
       D = map frame_of_packet (delivered s)
   in length P \<le> length D + 1
    \<and> D = take (length D) P
    \<and> distinct (map fst (posted s))
    \<and> (\<forall>b. frame_in_stock (g s) = Some b \<longrightarrow> P = D @ [(Some b, time_frame (g s))])
    \<and> (frame_in_stock (g s) = None \<and> wpc s \<noteq> WDone \<longrightarrow> P = D)
    \<and> (\<forall>ev. posted (step e ev s) \<noteq> posted s \<longrightarrow>
              frame_in_stock (g s) = None \<and> (\<exists>x. posted (step e ev s) = posted s @ [x]))
    \<and> (\<forall>ev. delivered (step e ev s) \<noteq> delivered s \<longrightarrow>
              frame_in_stock (g (step e ev s)) = None \<and>
              (\<exists>p. delivered (step e ev s) = delivered s @ [p]))"
proof -
  let ?s = "run e evs (sys0 opts)"
  have i: "inv e ?s" by (rule inv_reach)
  note f = slot_facts [OF i]
  have d: "distinct (map fst (posted ?s))"
    using i distinct_frames [of e "completed ?s"] by (simp add: inv_def inv_posted_def)
  have p: "\<forall>ev. posted (step e ev ?s) \<noteq> posted ?s \<longrightarrow>
              frame_in_stock (g ?s) = None \<and> (\<exists>x. posted (step e ev ?s) = posted ?s @ [x])"
    using posted_step [of e _ ?s] by blast
  have q: "\<forall>ev. delivered (step e ev ?s) \<noteq> delivered ?s \<longrightarrow>
              frame_in_stock (g (step e ev ?s)) = None \<and>
              (\<exists>p. delivered (step e ev ?s) = delivered ?s @ [p])"
    using delivered_step [of e _ ?s] by blast
  show ?thesis
    unfolding Let_def
    by (intro conjI) (rule f d p q)+
qed

theorem slot_holds_at_most_one_witness:
  "(let s = run (failing_at []) second_posted (sys0 default_options) in
      frame_in_stock (g s) = Some 1
    \<and> time_frame (g s) = 34366
    \<and> map frame_of_post (posted s) = [(Some 0, 1000), (Some 1, 34366)]
    \<and> map frame_of_packet (delivered s) = [(Some 0, 1000)]
    \<and> length (map frame_of_post (posted s)) \<le> length (map frame_of_packet (delivered s)) + 1)"
proof -
  let ?s = "run (failing_at []) second_posted (sys0 default_options)"
  have c: "frame_in_stock (g ?s) = Some 1 \<and> time_frame (g ?s) = 34366
    \<and> map frame_of_post (posted ?s) = [(Some 0, 1000), (Some 1, 34366)]
    \<and> map frame_of_packet (delivered ?s) = [(Some 0, 1000)]"
    by code_simp
  have t: "length (map frame_of_post (posted ?s)) \<le> length (map frame_of_packet (delivered ?s)) + 1"
    by (rule slot_holds_at_most_one [of "failing_at []" second_posted default_options,
        unfolded Let_def, THEN conjunct1])
  from c t show ?thesis
    unfolding Let_def by (intro conjI) (elim conjE, assumption)+
qed

subsection \<open>Timestamps\<close>

lemma grabs_map:
  assumes "\<forall>k < length xs. xs ! k = (k, f k)"
  shows "xs = map (\<lambda>k. (k, f k)) [0..<length xs]"
  using assms by (intro nth_equalityI) simp_all

lemma pts_frame_of_packet: "map pts D = map snd (map frame_of_packet D)"
  by (simp add: frame_of_packet_def comp_def)

lemma snd_frame_of_post: "map snd (map frame_of_post (frames e k)) = map (\<lambda>sn. clock e (3 * sn)) (filter (capture_ok e) [0..<k])"
  by (simp add: frames_def comp_def)

text \<open>
  Claim C7. The worker reads the clock once before the loop and three times in each
  iteration (after the blit, before and after the sleep), so reading number \<open>3 * sn\<close>
  is the one with which iteration \<open>sn\<close> begins: it is \<^verbatim>\<open>time_start\<close> of the iteration
  and is taken before its blit. In every reachable state, the frame stored by
  iteration \<open>sn\<close> carries reading \<open>3 * sn\<close>; every blit was issued with that reading
  as its \<^verbatim>\<open>time_start\<close>; the timestamps of the packets delivered are, in order,
  these readings of the iterations whose blit succeeded; and \<^verbatim>\<open>time_frame\<close> of a
  frame in stock is the reading of the iteration that stored it. When the frame is
  stored the clock has been read again (\<open>ticks\<close> is \<open>3 * sn + 2\<close>), so the timestamp is
  not the time of the store nor of the pull.
\<close>

theorem pts_is_capture_start:
  "let s = run e evs (sys0 opts) in
     posted s = map (\<lambda>sn. (sn, sn mod 2, clock e (3 * sn))) (filter (capture_ok e) [0..<completed s])
   \<and> grabs s = map (\<lambda>sn. (sn, clock e (3 * sn))) [0..<length (grabs s)]
   \<and> map pts (delivered s) =
       take (length (delivered s)) (map (\<lambda>sn. clock e (3 * sn)) (filter (capture_ok e) [0..<completed s]))
   \<and> (frame_in_stock (g s) \<noteq> None \<longrightarrow>
        posted s \<noteq> [] \<and> time_frame (g s) = clock e (3 * fst (last (posted s))))
   \<and> (wpc s = WGrab \<longrightarrow>
        w_time_end (w s) = clock e (3 * w_sn (w s)) \<and> ticks s = 3 * w_sn (w s) + 1)
   \<and> (wpc s = WPost \<or> wpc s = WWait \<or> wpc s = WWoken \<longrightarrow>
        w_time_start (w s) = clock e (3 * w_sn (w s)) \<and> ticks s = 3 * w_sn (w s) + 2)"
proof -
  let ?s = "run e evs (sys0 opts)"
  have i: "inv e ?s" by (rule inv_reach)
  then have wk: "inv_worker e ?s" and po: "posted ?s = frames e (completed ?s)"
    by (simp_all add: inv_def inv_posted_def)
  note f = slot_facts [OF i]
  have 1: "posted ?s = map (\<lambda>sn. (sn, sn mod 2, clock e (3 * sn)))
                         (filter (capture_ok e) [0..<completed ?s])"
    using po by (simp add: frames_def)
  have "\<forall>k < length (grabs ?s). grabs ?s ! k = (k, clock e (3 * k))"
    using wk by (simp add: inv_worker_def)
  then have 2: "grabs ?s = map (\<lambda>sn. (sn, clock e (3 * sn))) [0..<length (grabs ?s)]"
    by (rule grabs_map)
  define n where "n = length (delivered ?s)"
  have "map frame_of_packet (delivered ?s) = take n (map frame_of_post (posted ?s))"
    using f(2) by (simp add: n_def)
  then have "map snd (map frame_of_packet (delivered ?s)) =
        map snd (take n (map frame_of_post (frames e (completed ?s))))"
    by (simp only: po)
  also have "\<dots> = take n (map snd (map frame_of_post (frames e (completed ?s))))"
    by (simp only: take_map)
  also have "\<dots> = take n (map (\<lambda>sn. clock e (3 * sn)) (filter (capture_ok e) [0..<completed ?s]))"
    by (simp only: snd_frame_of_post)
  finally have 3: "map pts (delivered ?s) =
       take (length (delivered ?s))
         (map (\<lambda>sn. clock e (3 * sn)) (filter (capture_ok e) [0..<completed ?s]))"
    by (simp only: pts_frame_of_packet n_def)
  have 4: "frame_in_stock (g ?s) \<noteq> None \<longrightarrow>
        posted ?s \<noteq> [] \<and> time_frame (g ?s) = clock e (3 * fst (last (posted ?s)))"
  proof
    assume "frame_in_stock (g ?s) \<noteq> None"
    then obtain b where b: "frame_in_stock (g ?s) = Some b" by auto
    with f(3) have P: "map frame_of_post (posted ?s) =
        map frame_of_packet (delivered ?s) @ [(Some b, time_frame (g ?s))]"
      by simp
    then have ne: "posted ?s \<noteq> []" by auto
    have "last (map frame_of_post (posted ?s)) = (Some b, time_frame (g ?s))"
      using P by simp
    then have l: "frame_of_post (last (posted ?s)) = (Some b, time_frame (g ?s))"
      using ne by (simp add: last_map)
    obtain sn b' t where x: "last (posted ?s) = (sn, b', t)"
      by (cases "last (posted ?s)") auto
    have "(sn, b', t) \<in> set (frames e (completed ?s))"
      using ne x po last_in_set [of "posted ?s"] by simp
    then have "t = clock e (3 * sn)"
      using frames_mem by blast
    with l x ne show "posted ?s \<noteq> [] \<and> time_frame (g ?s) = clock e (3 * fst (last (posted ?s)))"
      by simp
  qed
  have 5: "wpc ?s = WGrab \<longrightarrow>
        w_time_end (w ?s) = clock e (3 * w_sn (w ?s)) \<and> ticks ?s = 3 * w_sn (w ?s) + 1"
    using wk by (simp add: inv_worker_def)
  have 6: "wpc ?s = WPost \<or> wpc ?s = WWait \<or> wpc ?s = WWoken \<longrightarrow>
        w_time_start (w ?s) = clock e (3 * w_sn (w ?s)) \<and> ticks ?s = 3 * w_sn (w ?s) + 2"
    using wk by (simp add: inv_worker_def)
  show ?thesis
    unfolding Let_def
    by (intro conjI) (rule 1 2 3 4 5 6)+
qed

theorem pts_is_capture_start_witness:
  "(let s = run (failing_at []) second_posted (sys0 default_options) in
      map pts (delivered s) = [1000]
    \<and> grabs s = [(0, 1000), (1, 34366)]
    \<and> map (clock (failing_at [])) [0, 1, 2, 3, 4] = [1000, 12122, 23244, 34366, 45488]
    \<and> ticks s = 5
    \<and> frame_in_stock (g s) = Some 1
    \<and> time_frame (g s) = clock (failing_at []) (3 * fst (last (posted s))))"
proof -
  let ?s = "run (failing_at []) second_posted (sys0 default_options)"
  have c: "map pts (delivered ?s) = [1000] \<and> grabs ?s = [(0, 1000), (1, 34366)]
    \<and> map (clock (failing_at [])) [0, 1, 2, 3, 4] = [1000, 12122, 23244, 34366, 45488]
    \<and> ticks ?s = 5 \<and> frame_in_stock (g ?s) = Some 1"
    by code_simp
  then have n: "frame_in_stock (g ?s) \<noteq> None" by simp
  have t: "time_frame (g ?s) = clock (failing_at []) (3 * fst (last (posted ?s)))"
    using pts_is_capture_start [of "failing_at []" second_posted default_options, unfolded Let_def,
        THEN conjunct2, THEN conjunct2, THEN conjunct2, THEN conjunct1] n
    by blast
  from c t show ?thesis
    unfolding Let_def by (intro conjI) (elim conjE, assumption)+
qed

subsection \<open>A failed blit after the first frame\<close>

text \<open>While nobody closes the device and the first blit succeeds, the worker stays alive.\<close>

lemma gdigrab0_error [simp]: "(gdigrab0 opts)\<lparr> error_code := 0 \<rparr> = gdigrab0 opts"
  by (simp add: gdigrab0_def)





lemma copy_frame_call_g:
  "g (copy_frame_call e s) = g s \<or> g (copy_frame_call e s) = (g s)\<lparr> frame_in_stock := None \<rparr>"
  using copy_frame_call_cases [of e s] by auto

lemma copy_frame_call_wpc [simp]:
  "wpc (copy_frame_call e s) = (if wpc s = WWait then WWoken else wpc s)"
  using copy_frame_call_cases [of e s] by auto














text \<open>Every \<^verbatim>\<open>AVERROR(EIO)\<close> a pull returns is owed to a failed iteration.\<close>

lemma errno_distinct [simp]:
  "AVERROR ENOMEM \<noteq> AVERROR EIO" "AVERROR EAGAIN \<noteq> AVERROR EIO"
  by (simp_all add: AVERROR_def ENOMEM_def EAGAIN_def EIO_def)

lemma eio_outputs_return [simp]:
  "eio_outputs (read_return (r, p, c) s) =
     eio_outputs s + (if r = AVERROR EIO \<and> p = None then 1 else 0)"
  by (simp add: eio_outputs_def)

lemma woken_empty_idle [simp]: "mpc s = MIdle \<Longrightarrow> woken_empty s = 0"
  by (simp add: woken_empty_def)

lemma eio_outputs_cong: "outputs s' = outputs s \<Longrightarrow> eio_outputs s' = eio_outputs s"
  by (simp add: eio_outputs_def)


lemma completed_return [simp]:
  "completed (read_return (r, p, c) s) = completed s"
  by (simp add: completed_def)

lemma completed_allocs [simp]: "completed (s\<lparr> allocs := n \<rparr>) = completed s"
  by (simp add: completed_def)

lemma eio_outputs_allocs [simp]: "eio_outputs (s\<lparr> allocs := n \<rparr>) = eio_outputs s"
  by (simp add: eio_outputs_def)




























subsection \<open>A failed first blit\<close>

lemma dc_init_ret:
  "gdigrab_dc_init e c = Ret (ret, x, calls, c1) \<Longrightarrow> ret = 0 \<or> ret = AVERROR EIO"
  by (auto simp: gdigrab_dc_init_def Let_def split: outcome.splits if_splits)

lemma fatal_init: "inv_fatal (sys0 opts)"
  by (simp add: inv_fatal_def sys0_def gdigrab0_def)

lemma fatal_start_call:
  assumes "inv_fatal s" "inv_shape s"
  shows "inv_fatal (start_call e s)"
proof (cases "mpc s \<noteq> MIdle \<or> wpc s \<noteq> WNone")
  case True
  then show ?thesis using assms(1) by (auto simp: start_call_def)
next
  case False
  then have "grabs s = []" using assms(2) by (simp add: inv_shape_def)
  with False assms(1) show ?thesis
    by (simp add: start_call_def inv_fatal_def Let_def)
qed

lemma fatal_start_lock: "inv_fatal s \<Longrightarrow> inv_fatal (start_lock s)"
  by (cases "error_code (g s) = 0") (auto simp: start_lock_def inv_fatal_def)

lemma fatal_start_return: "inv_fatal s \<Longrightarrow> inv_fatal (start_return s)"
  by (auto simp: start_return_def inv_fatal_def)

lemma wake_mpc [simp]:
  "(case p of MStartWait \<Rightarrow> MStartWoken | MReadWait \<Rightarrow> MReadWoken | p \<Rightarrow> p) \<noteq> MReadWait"
  "(case p of MStartWait \<Rightarrow> MStartWoken | MReadWait \<Rightarrow> MReadWoken | p \<Rightarrow> p) \<noteq> MStartWait"
  by (cases p; simp)+

lemma fatal_read_return:
  assumes "inv_fatal s" and "error_code c = error_code (g s)"
  shows "inv_fatal (read_return (r, pkt, c) s)"
  using assms by (simp add: inv_fatal_def)

lemma copy_frame_call_error [simp]: "error_code (g (copy_frame_call e s)) = error_code (g s)"
  using copy_frame_call_g [of e s] by auto

lemma copy_frame_call_fields [simp]:
  "mpc (copy_frame_call e s) = MIdle" "grabs (copy_frame_call e s) = grabs s"
  "start_rets (copy_frame_call e s) = start_rets s"
  using copy_frame_call_cases [of e s] by auto

lemma fatal_copy: "inv_fatal s \<Longrightarrow> inv_fatal (copy_frame_call e s)"
  by (simp add: inv_fatal_def)

lemma fatal_read_call: "inv_fatal s \<Longrightarrow> inv_fatal (read_call e nb s)"
  using fatal_read_return [of s "g s"] fatal_copy [of s e]
  by (simp add: read_call_def) (auto simp add: inv_fatal_def)

lemma fatal_read_woken: "inv_fatal s \<Longrightarrow> inv_fatal (read_woken e s)"
  using fatal_read_return [of s "g s"] fatal_copy [of s e]
  by (simp add: read_woken_def)

lemma fatal_caller_resume: "inv_fatal s \<Longrightarrow> inv_fatal (caller_resume e s)"
  using fatal_start_lock [of s] fatal_start_return [of s] fatal_read_woken [of s e]
  by (simp add: caller_resume_def split: caller_pc.splits)

lemma fatal_close: "inv_fatal s \<Longrightarrow> inv_fatal (gdigrab_read_close s)"
  by (simp add: inv_fatal_def)

lemma fatal_worker_exit:
  assumes "inv_fatal s" and "grabs s = [] \<or> error_code (g s) = AVERROR EIO"
  shows "inv_fatal (worker_exit s)"
  using assms by (auto simp: inv_fatal_def)

lemma fatal_worker_init:
  assumes f: "inv_fatal s" and sh: "inv_shape s" and pc: "wpc s = WInit"
  shows "inv_fatal (worker_init e s)"
proof -
  have g0: "grabs s = []" using sh pc by (simp add: inv_shape_def)
  have sr: "set (start_rets s) \<subseteq> {0, AVERROR EIO}" using f by (simp add: inv_fatal_def)
  show ?thesis
  proof (cases "gdigrab_dc_init (dc e) (g s)")
    case Trap
    then show ?thesis using g0 f by (simp add: worker_init_def inv_fatal_def)
  next
    case (Ret r)
    obtain ret x calls c1 where r: "r = (ret, x, calls, c1)" by (cases r) auto
    have l: "length (hbmp (g s)) = 2" "length (buffer (g s)) = 2"
      using sh by (simp_all add: inv_shape_def)
    note any = dc_init_any [OF Ret [unfolded r] l]
    have rv: "ret = 0 \<or> ret = AVERROR EIO" using dc_init_ret [OF Ret [unfolded r]] .
    show ?thesis
      using Ret r g0 sr any(4) rv
      by (cases "ret = 0") (simp_all add: worker_init_def inv_fatal_def)
  qed
qed

lemma fatal_sn:
  assumes "inv_worker e s" and "\<not> capture_ok e 0"
  shows "w_sn (w s) = 0" "wpc s \<noteq> WWait" "wpc s \<noteq> WWoken" "wpc s \<noteq> WSleep"
  using assms by (auto simp: inv_worker_def)

lemma fatal_worker_grab:
  assumes f: "inv_fatal s" and wk: "inv_worker e s" and pc: "wpc s = WGrab"
    and bad: "\<not> capture_ok e 0"
  shows "inv_fatal (worker_grab e s)"
proof -
  have "length (grabs s) = w_sn (w s)" using wk pc by (simp add: inv_worker_def)
  then have g0: "grabs s = []" using fatal_sn(1) [OF wk bad] by simp
  show ?thesis
    using f pc g0 by (simp add: worker_grab_def inv_fatal_def Let_def)
qed

lemma fatal_worker_post:
  assumes f: "inv_fatal s" and wk: "inv_worker e s" and pc: "wpc s = WPost"
    and bad: "\<not> capture_ok e 0"
  shows "inv_fatal (worker_post s)"
proof -
  have sn: "w_sn (w s) = 0" by (rule fatal_sn(1) [OF wk bad])
  have "w_error (w s) = (if capture_ok e (w_sn (w s)) then 0 else AVERROR EIO)"
    using wk pc by (simp add: inv_worker_def)
  then have er: "w_error (w s) = AVERROR EIO" using sn bad by simp
  let ?t = "s\<lparr> g := (g s)\<lparr> error_code := AVERROR EIO \<rparr> \<rparr>"
  have eq: "worker_post s = worker_exit ?t"
    using sn er by (simp add: worker_post_def)
  have "inv_fatal ?t"
    using f pc by (simp add: inv_fatal_def)
  then have "inv_fatal (worker_exit ?t)"
    by (rule fatal_worker_exit) simp
  then show ?thesis by (simp only: eq)
qed

lemma fatal_worker_step:
  assumes f: "inv_fatal s" and i: "inv e s" and bad: "\<not> capture_ok e 0"
  shows "inv_fatal (worker_step e s)"
proof -
  have sh: "inv_shape s" and wk: "inv_worker e s" using i by (simp_all add: inv_def)
  note n = fatal_sn [OF wk bad]
  show ?thesis
  proof (cases "wpc s")
    case WInit
    then show ?thesis using fatal_worker_init [OF f sh] by (simp add: worker_step_def)
  next
    case WGrab
    then show ?thesis using fatal_worker_grab [OF f wk _ bad] by (simp add: worker_step_def)
  next
    case WPost
    then show ?thesis using fatal_worker_post [OF f wk _ bad] by (simp add: worker_step_def)
  next
    case WExit
    then have "grabs s = []" using f by (simp add: inv_fatal_def)
    then show ?thesis using WExit fatal_worker_exit [OF f] by (simp add: worker_step_def)
  qed (use f n in \<open>simp_all add: worker_step_def\<close>)
qed

lemma fatal_step:
  assumes f: "inv_fatal s" and i: "inv e s" and bad: "\<not> capture_ok e 0"
  shows "inv_fatal (step e ev s)"
proof (cases "wpc s = WTrap")
  case True
  then show ?thesis using f by (simp add: step_def)
next
  case False
  have sh: "inv_shape s" using i by (simp add: inv_def)
  show ?thesis
  proof (cases ev)
    case Start
    then show ?thesis using False fatal_start_call [OF f sh] by (simp add: step_def)
  next
    case Work
    then show ?thesis using False fatal_worker_step [OF f i bad] by (simp add: step_def)
  next
    case (Read nb)
    then show ?thesis using False fatal_read_call [OF f] by (simp add: step_def)
  next
    case Resume
    then show ?thesis using False fatal_caller_resume [OF f] by (simp add: step_def)
  next
    case Close
    then show ?thesis using False fatal_close [OF f] by (simp add: step_def)
  qed
qed

lemma fatal_run:
  assumes bad: "\<not> capture_ok e 0"
  shows "inv e s \<Longrightarrow> inv_fatal s \<Longrightarrow> inv_fatal (run e evs s)"
proof (induction evs arbitrary: s)
  case Nil
  then show ?case by simp
next
  case (Cons ev evs)
  have "inv e (step e ev s)" using Cons.prems(1) by (rule inv_step)
  moreover have "inv_fatal (step e ev s)"
    by (rule fatal_step [OF Cons.prems(2) Cons.prems(1) bad])
  ultimately show ?case
    using Cons.IH by simp
qed

text \<open>
  Claim C4, amended. Let the first blit fail. Then in every reachable state nothing
  has been stored or delivered and no frame is in stock; the worker has grabbed at
  most once, and once it has, it is in its first critical section or has returned
  with \<^verbatim>\<open>error_code = AVERROR(EIO)\<close>; from that critical section its next step records
  the error, releases the resources and returns. \<^verbatim>\<open>gdigrab_worker_start\<close> returns the
  error code it reads when it resumes, which is 0 or \<^verbatim>\<open>AVERROR(EIO)\<close>. Once the worker
  has returned with the error recorded no caller is waiting; a pull entered with the
  error recorded returns \<^verbatim>\<open>AVERROR(EIO)\<close> in the same step, and a pull that was waiting
  and resumes after the worker's return returns \<^verbatim>\<open>AVERROR(EIO)\<close> too.
\<close>

theorem first_failure_is_fatal:
  assumes bad: "\<not> capture_ok e 0"
  shows "let s = run e evs (sys0 opts) in
      posted s = [] \<and> delivered s = [] \<and> frame_in_stock (g s) = None
    \<and> length (grabs s) \<le> 1
    \<and> (grabs s \<noteq> [] \<longrightarrow> wpc s = WPost \<or> (wpc s = WDone \<and> error_code (g s) = AVERROR EIO))
    \<and> (wpc s = WPost \<longrightarrow>
         wpc (step e Work s) = WDone \<and> error_code (g (step e Work s)) = AVERROR EIO \<and>
         released (g (step e Work s)))
    \<and> set (start_rets s) \<subseteq> {0, AVERROR EIO}
    \<and> (mpc s = MStartWoken \<and> wpc s \<noteq> WTrap \<longrightarrow>
         start_rets (step e Resume s) = start_rets s @ [error_code (g s)])
    \<and> (wpc s = WDone \<and> error_code (g s) \<noteq> 0 \<longrightarrow> mpc s \<noteq> MReadWait \<and> mpc s \<noteq> MStartWait)
    \<and> (\<forall>nb. error_code (g s) \<noteq> 0 \<and> mpc s = MIdle \<and> wpc s \<noteq> WTrap \<longrightarrow>
         outputs (step e (Read nb) s) = outputs s @ [(AVERROR EIO, None)] \<and>
         mpc (step e (Read nb) s) = MIdle)
    \<and> (wpc s = WDone \<and> mpc s = MReadWoken \<longrightarrow>
         outputs (step e Resume s) = outputs s @ [(AVERROR EIO, None)] \<and>
         mpc (step e Resume s) = MIdle)"
proof -
  let ?s = "run e evs (sys0 opts)"
  have i: "inv e ?s" by (rule inv_reach)
  have f: "inv_fatal ?s" by (rule fatal_run [OF bad inv_init fatal_init])
  have wk: "inv_worker e ?s" and po: "inv_posted e ?s" and sl: "inv_slot ?s"
    using i by (simp_all add: inv_def)
  note n = fatal_sn [OF wk bad]
  have 1: "posted ?s = []"
    using po n by (simp add: inv_posted_def completed_def)
  have 23: "delivered ?s = [] \<and> frame_in_stock (g ?s) = None"
    using sl 1 by (auto simp: inv_slot_def pending_def split: option.splits)
  have 2: "delivered ?s = []" and 3: "frame_in_stock (g ?s) = None"
    using 23 by simp_all
  have 4: "length (grabs ?s) \<le> 1"
    using wk n(1) by (simp add: inv_worker_def)
  have 5: "grabs ?s \<noteq> [] \<longrightarrow> wpc ?s = WPost \<or> (wpc ?s = WDone \<and> error_code (g ?s) = AVERROR EIO)"
    using f by (simp add: inv_fatal_def)
  have 6: "wpc ?s = WPost \<longrightarrow>
         wpc (step e Work ?s) = WDone \<and> error_code (g (step e Work ?s)) = AVERROR EIO \<and>
         released (g (step e Work ?s))"
  proof
    assume pc: "wpc ?s = WPost"
    have "w_error (w ?s) = (if capture_ok e (w_sn (w ?s)) then 0 else AVERROR EIO)"
      using wk pc by (simp add: inv_worker_def)
    then have er: "w_error (w ?s) = AVERROR EIO" using n(1) bad by simp
    have "step e Work ?s = worker_exit (?s\<lparr> g := (g ?s)\<lparr> error_code := AVERROR EIO \<rparr> \<rparr>)"
      using pc er n(1) by (simp add: step_def worker_step_def worker_post_def)
    then show "wpc (step e Work ?s) = WDone \<and> error_code (g (step e Work ?s)) = AVERROR EIO \<and>
         released (g (step e Work ?s))"
      by (simp add: released_destroy)
  qed
  have 7: "set (start_rets ?s) \<subseteq> {0, AVERROR EIO}"
    using f by (simp add: inv_fatal_def)
  have 8: "mpc ?s = MStartWoken \<and> wpc ?s \<noteq> WTrap \<longrightarrow>
         start_rets (step e Resume ?s) = start_rets ?s @ [error_code (g ?s)]"
    by (simp add: step_def caller_resume_def start_return_def)
  have 9: "wpc ?s = WDone \<and> error_code (g ?s) \<noteq> 0 \<longrightarrow> mpc ?s \<noteq> MReadWait \<and> mpc ?s \<noteq> MStartWait"
    using f by (simp add: inv_fatal_def)
  have 10: "\<forall>nb. error_code (g ?s) \<noteq> 0 \<and> mpc ?s = MIdle \<and> wpc ?s \<noteq> WTrap \<longrightarrow>
         outputs (step e (Read nb) ?s) = outputs ?s @ [(AVERROR EIO, None)] \<and>
         mpc (step e (Read nb) ?s) = MIdle"
    by (simp add: step_def read_call_def)
  have 11: "wpc ?s = WDone \<and> mpc ?s = MReadWoken \<longrightarrow>
         outputs (step e Resume ?s) = outputs ?s @ [(AVERROR EIO, None)] \<and>
         mpc (step e Resume ?s) = MIdle"
    using 3 by (simp add: step_def caller_resume_def read_woken_def)
  show ?thesis
    unfolding Let_def
    by (intro conjI) (rule 1 2 3 4 5 6 7 8 9 10 11)+
qed

text \<open>The start returns before the first blit: it returns 0, and the pull returns the
  error.\<close>

theorem first_failure_is_fatal_witness:
  "\<not> capture_ok (failing_at [0]) 0
   \<and> (let s = run (failing_at [0]) first_frame (sys0 default_options) in
        start_rets s = [0] \<and> outputs s = [(AVERROR EIO, None)] \<and> wpc s = WDone \<and>
        error_code (g s) = AVERROR EIO \<and> mpc s = MIdle \<and> grabs s = [(0, 1000)] \<and>
        posted s = [] \<and> delivered s = [])"
proof -
  let ?s = "run (failing_at [0]) first_frame (sys0 default_options)"
  have h: "\<not> capture_ok (failing_at [0]) 0"
    by (simp add: failing_at_def)
  have c: "start_rets ?s = [0] \<and> outputs ?s = [(AVERROR EIO, None)] \<and> wpc ?s = WDone \<and>
        error_code (g ?s) = AVERROR EIO \<and> mpc ?s = MIdle \<and> grabs ?s = [(0, 1000)]"
    by code_simp
  note T = first_failure_is_fatal [OF h, of first_frame default_options, unfolded Let_def]
  have p: "posted ?s = []" by (rule T [THEN conjunct1])
  have d: "delivered ?s = []" by (rule T [THEN conjunct2, THEN conjunct1])
  from h c p d show ?thesis
    unfolding Let_def by (intro conjI) (elim conjE, assumption)+
qed

text \<open>The start resumes after the first blit has failed: it returns \<^verbatim>\<open>AVERROR(EIO)\<close>,
  although \<^verbatim>\<open>gdigrab_dc_init\<close> succeeded.\<close>

theorem start_reports_first_failure:
  "\<not> capture_ok (failing_at [0]) 0
   \<and> init_ok (failing_at [0]) default_options
   \<and> (let s = run (failing_at [0]) fatal_start_late (sys0 default_options) in
        start_rets s = [AVERROR EIO] \<and> wpc s = WDone \<and> error_code (g s) = AVERROR EIO \<and>
        grabs s = [(0, 1000)] \<and> outputs s = [])"
  by code_simp

end
